theory Spec2Isabelle
  imports Main
begin

section \<open>Values, completions and promises\<close>

text \<open>
  JavaScript values as far as the wrapper looks at them. A promise is represented by the
  completion it settles with: \<open>VPromise (Return v)\<close> is fulfilled with \<open>v\<close>,
  \<open>VPromise (Throw e)\<close> is rejected with \<open>e\<close>. An error object is its \<open>name\<close> and
  its \<open>message\<close>. Numbers are restricted to integers.
\<close>

datatype val =
    VUndefined
  | VNull
  | VBool bool
  | VNum int
  | VStr string
  | VArr "val list"
  | VError string string
  | VPromise outcome
and outcome =
    Return val
  | Throw val

text \<open>\<^verbatim>\<open>class ZodFnError extends Error\<close>: the name is fixed, the message is the argument.\<close>

definition ZodFnError :: "string \<Rightarrow> val" where
  "ZodFnError message = VError ''ZodFnError'' message"

text \<open>\<^verbatim>\<open>x instanceof Promise\<close>\<close>

fun instanceof_Promise :: "val \<Rightarrow> bool" where
  "instanceof_Promise (VPromise _) = True"
| "instanceof_Promise _ = False"

text \<open>
  \<^verbatim>\<open>await x\<close>: a value that is no promise is returned as it is, a rejected promise throws,
  a promise resolved with another promise follows that one.
\<close>

fun await :: "val \<Rightarrow> outcome" where
  "await (VPromise (Return v)) = await v"
| "await (VPromise (Throw e)) = Throw e"
| "await v = Return v"

section \<open>Ordinal suffixes and number printing\<close>

text \<open>\<^verbatim>\<open>getOrdinalSuffix(num)\<close>, on the positions \<open>i + 1\<close> the callers pass.\<close>

definition getOrdinalSuffix :: "nat \<Rightarrow> string" where
  "getOrdinalSuffix num =
     (let j = num mod 10; k = num mod 100
      in if j = 1 \<and> k \<noteq> 11 then ''st''
         else if j = 2 \<and> k \<noteq> 12 then ''nd''
         else if j = 3 \<and> k \<noteq> 13 then ''rd''
         else ''th'')"

definition digit_char :: "nat \<Rightarrow> char" where
  "digit_char d = char_of (48 + d)"

text \<open>Decimal printing of a natural number, as a template literal prints a position.\<close>

fun show_nat :: "nat \<Rightarrow> string" where
  "show_nat n = (if n < 10 then [digit_char n] else show_nat (n div 10) @ [digit_char (n mod 10)])"

declare show_nat.simps [simp del]

definition show_int :: "int \<Rightarrow> string" where
  "show_int i = (if i < 0 then CHR ''-'' # show_nat (nat (- i)) else show_nat (nat i))"

section \<open>Strings\<close>

text \<open>
  \<^verbatim>\<open>s.replace(pat, rep)\<close> with a string pattern: the first occurrence of \<open>pat\<close> is
  replaced, a string without an occurrence is returned unchanged.
\<close>

fun replace_first :: "string \<Rightarrow> string \<Rightarrow> string \<Rightarrow> string" where
  "replace_first pat rep [] = (if pat = [] then rep else [])"
| "replace_first pat rep (c # cs) =
     (if take (length pat) (c # cs) = pat then rep @ drop (length pat) (c # cs)
      else c # replace_first pat rep cs)"

definition fix_entry_point :: "string \<Rightarrow> string" where
  "fix_entry_point errMessage = replace_first ''parseAsync()'' ''createAsync()'' errMessage"

section \<open>Parsed issue lists\<close>

text \<open>
  What \<^verbatim>\<open>JSON.parse\<close> returns. \<^verbatim>\<open>JSON.parse\<close> itself belongs to the language, not to the
  repository: the functions below take it as the parameter \<open>jp\<close>, \<open>None\<close> standing for
  the \<^verbatim>\<open>SyntaxError\<close> it throws. Object keys are unique; numbers are integers.
\<close>

datatype json =
    JNull
  | JBool bool
  | JNum int
  | JStr string
  | JArr "json list"
  | JObj "(string \<times> json) list"

type_synonym json_parse = "string \<Rightarrow> json option"

text \<open>\<^verbatim>\<open>x?.key\<close> for the keys \<^verbatim>\<open>message\<close> and \<^verbatim>\<open>path\<close>; \<open>None\<close> is \<^verbatim>\<open>undefined\<close>.\<close>

fun json_member :: "json option \<Rightarrow> string \<Rightarrow> json option" where
  "json_member (Some (JObj fields)) key = map_of fields key"
| "json_member _ key = None"

text \<open>\<^verbatim>\<open>json?.[0]\<close> of an array.\<close>

fun json_first :: "json list \<Rightarrow> json option" where
  "json_first [] = None"
| "json_first (x # xs) = Some x"

fun json_truthy :: "json option \<Rightarrow> bool" where
  "json_truthy None = False"
| "json_truthy (Some JNull) = False"
| "json_truthy (Some (JBool b)) = b"
| "json_truthy (Some (JNum n)) = (n \<noteq> 0)"
| "json_truthy (Some (JStr s)) = (s \<noteq> [])"
| "json_truthy (Some (JArr xs)) = True"
| "json_truthy (Some (JObj fields)) = True"

text \<open>
  \<^verbatim>\<open>String(x)\<close> and \<^verbatim>\<open>xs.join(sep)\<close>: \<^verbatim>\<open>join\<close> prints \<^verbatim>\<open>null\<close> as the empty string and
  every other element with \<^verbatim>\<open>String\<close>, which joins a nested array with commas.
\<close>

fun js_String :: "json \<Rightarrow> string"
  and js_join :: "string \<Rightarrow> json list \<Rightarrow> string"
  and js_join_elem :: "json \<Rightarrow> string"
where
  "js_String JNull = ''null''"
| "js_String (JBool b) = (if b then ''true'' else ''false'')"
| "js_String (JNum n) = show_int n"
| "js_String (JStr s) = s"
| "js_String (JArr xs) = js_join '','' xs"
| "js_String (JObj fields) = ''[object Object]''"
| "js_join sep [] = []"
| "js_join sep [x] = js_join_elem x"
| "js_join sep (x # y # ys) = js_join_elem x @ sep @ js_join sep (y # ys)"
| "js_join_elem JNull = []"
| "js_join_elem (JBool b) = js_String (JBool b)"
| "js_join_elem (JNum n) = js_String (JNum n)"
| "js_join_elem (JStr s) = js_String (JStr s)"
| "js_join_elem (JArr xs) = js_String (JArr xs)"
| "js_join_elem (JObj fields) = js_String (JObj fields)"

section \<open>Schemas\<close>

text \<open>
  A schema is whatever object the caller hands to the builder; the wrapper uses two of its
  members. A member is \<open>None\<close> when it is absent or not callable. A call returns
  \<open>Inr v\<close> for the parsed value and \<open>Inl m\<close> for a failure, \<open>m\<close> being the
  \<^verbatim>\<open>message\<close> of the error (thrown by \<^verbatim>\<open>parse\<close>; thrown or delivered as the rejection by
  \<^verbatim>\<open>parseAsync\<close>).
\<close>

record schema =
  parse :: "(val \<Rightarrow> string + val) option"
  parseAsync :: "(val \<Rightarrow> string + val) option"

text \<open>
  A value offered as a schema: \<^verbatim>\<open>undefined\<close>, \<^verbatim>\<open>null\<close>, or an object with its members
  (a primitive has neither member).
\<close>

datatype cand = CUndefined | CNull | CObj schema

text \<open>\<^verbatim>\<open>typeof schema?.parseAsync === "function"\<close>\<close>

fun has_parseAsync :: "cand \<Rightarrow> bool" where
  "has_parseAsync (CObj s) = (case parseAsync s of None \<Rightarrow> False | Some f \<Rightarrow> True)"
| "has_parseAsync _ = False"

fun cand_truthy :: "cand \<Rightarrow> bool" where
  "cand_truthy (CObj s) = True"
| "cand_truthy _ = False"

text \<open>
  \<^verbatim>\<open>schema.parse(arg)\<close> and \<^verbatim>\<open>schema.parseAsync(arg)\<close> inside the \<^verbatim>\<open>try\<close> blocks: calling a
  member that is missing throws a \<^verbatim>\<open>TypeError\<close>, which the \<^verbatim>\<open>catch\<close> treats like any
  other failure of the schema.
\<close>

fun call_parse :: "cand \<Rightarrow> val \<Rightarrow> string + val" where
  "call_parse (CObj s) arg =
     (case parse s of None \<Rightarrow> Inl ''schema.parse is not a function'' | Some f \<Rightarrow> f arg)"
| "call_parse CNull arg = Inl ''Cannot read properties of null (reading 'parse')''"
| "call_parse CUndefined arg = Inl ''Cannot read properties of undefined (reading 'parse')''"

fun call_parseAsync :: "cand \<Rightarrow> val \<Rightarrow> string + val" where
  "call_parseAsync (CObj s) arg =
     (case parseAsync s of None \<Rightarrow> Inl ''schema.parseAsync is not a function'' | Some f \<Rightarrow> f arg)"
| "call_parseAsync CNull arg = Inl ''Cannot read properties of null (reading 'parseAsync')''"
| "call_parseAsync CUndefined arg =
     Inl ''Cannot read properties of undefined (reading 'parseAsync')''"

section \<open>Error normalisation\<close>

text \<open>
  The two \<^verbatim>\<open>throwError\<close> closures. They always throw; the result is the value thrown.
  \<open>label\<close> is what stands between \<^verbatim>\<open>Validation failed for\<close> and the rest.
  A truthy \<^verbatim>\<open>path\<close> that is no array has no \<^verbatim>\<open>join\<close>, and the call throws a
  \<^verbatim>\<open>TypeError\<close>.
\<close>

definition throwError :: "json_parse \<Rightarrow> string \<Rightarrow> string \<Rightarrow> val" where
  "throwError jp label message =
     (case jp message of
        None \<Rightarrow> ZodFnError (fix_entry_point message)
      | Some (JArr xs) \<Rightarrow>
          (if json_truthy (json_member (json_first xs) ''message'')
              \<and> json_truthy (json_member (json_first xs) ''path'')
           then (case json_member (json_first xs) ''path'' of
                   Some (JArr segs) \<Rightarrow>
                     (let path = js_join ''.'' segs;
                          msg = js_String (the (json_member (json_first xs) ''message''));
                          errMessage = ''Validation failed for '' @ label;
                          errMessage = (if path \<noteq> [] then errMessage @ '' - Path: '' @ path
                                        else errMessage);
                          errMessage = errMessage @ '' - '' @ msg
                      in ZodFnError (fix_entry_point errMessage))
                 | _ \<Rightarrow> VError ''TypeError'' ''json[0].path.join is not a function'')
           else ZodFnError (fix_entry_point message))
      | Some _ \<Rightarrow> ZodFnError (fix_entry_point message))"

definition argValidation_throwError :: "json_parse \<Rightarrow> nat \<Rightarrow> string \<Rightarrow> val" where
  "argValidation_throwError jp position message =
     throwError jp (show_nat position @ getOrdinalSuffix position @ '' argument'') message"

definition returnValidation_throwError :: "json_parse \<Rightarrow> string \<Rightarrow> val" where
  "returnValidation_throwError jp message = throwError jp ''return value'' message"

text \<open>
  \<^verbatim>\<open>argValidation(arg, position, schema, isAsync)\<close>. The asynchronous variant returns the
  promise of the \<^verbatim>\<open>async\<close> closure.
\<close>

definition argValidation :: "json_parse \<Rightarrow> val \<Rightarrow> nat \<Rightarrow> cand \<Rightarrow> bool \<Rightarrow> outcome" where
  "argValidation jp arg position schema isAsync =
     (if isAsync then
        Return (VPromise (case call_parseAsync schema arg of
                            Inl m \<Rightarrow> Throw (argValidation_throwError jp position m)
                          | Inr v \<Rightarrow> Return v))
      else (case call_parse schema arg of
              Inl m \<Rightarrow> Throw (argValidation_throwError jp position m)
            | Inr v \<Rightarrow> Return v))"

text \<open>\<^verbatim>\<open>returnValidation(arg, schema, isAsync)\<close>\<close>

definition returnValidation :: "json_parse \<Rightarrow> val \<Rightarrow> cand \<Rightarrow> bool \<Rightarrow> outcome" where
  "returnValidation jp arg schema isAsync =
     (case schema of
        CUndefined \<Rightarrow> Return arg
      | _ \<Rightarrow>
          (if isAsync then
             Return (VPromise (case call_parseAsync schema arg of
                                 Inl m \<Rightarrow> Throw (returnValidation_throwError jp m)
                               | Inr v \<Rightarrow> Return v))
           else (case call_parse schema arg of
                   Inl m \<Rightarrow> Throw (returnValidation_throwError jp m)
                 | Inr v \<Rightarrow> Return v)))"

section \<open>Builder objects\<close>

text \<open>
  The builders are objects with identity: \<^verbatim>\<open>zfn\<close>, and the objects that
  \<^verbatim>\<open>getBuilderInstance\<close> makes with \<^verbatim>\<open>Object.create\<close>. The store is a list of objects, an
  address is an index into it. An object has its prototype and, when it owns one, the
  record \<^verbatim>\<open>_schemas = { args, return }\<close>.
\<close>

record schemas =
  schemas_args :: "cand list"
  schemas_return :: cand

record obj =
  proto :: "nat option"
  own_schemas :: "schemas option"

type_synonym heap = "obj list"

text \<open>
  The object on the prototype chain of \<open>a\<close> that owns \<^verbatim>\<open>_schemas\<close>, if there is one.
  Prototype chains are acyclic, so a walk of \<open>length h\<close> steps sees the whole chain.
\<close>

fun schemas_owner :: "heap \<Rightarrow> nat \<Rightarrow> nat \<Rightarrow> nat option" where
  "schemas_owner h 0 a = None"
| "schemas_owner h (Suc fuel) a =
     (if a < length h then
        (case own_schemas (h ! a) of
           Some s \<Rightarrow> Some a
         | None \<Rightarrow> (case proto (h ! a) of None \<Rightarrow> None | Some p \<Rightarrow> schemas_owner h fuel p))
      else None)"

text \<open>\<^verbatim>\<open>builder._schemas\<close>, read through the prototype chain.\<close>

definition read_schemas :: "heap \<Rightarrow> nat \<Rightarrow> schemas option" where
  "read_schemas h a =
     (case schemas_owner h (length h) a of None \<Rightarrow> None | Some ow \<Rightarrow> own_schemas (h ! ow))"

text \<open>
  \<^verbatim>\<open>getBuilderInstance(obj)\<close>: \<^verbatim>\<open>"_schemas" in obj\<close> looks along the prototype chain. The
  new object is allocated at the end of the store.
\<close>

definition getBuilderInstance :: "heap \<Rightarrow> nat \<Rightarrow> nat \<times> heap" where
  "getBuilderInstance h ob =
     (case schemas_owner h (length h) ob of
        Some ow \<Rightarrow> (ob, h)
      | None \<Rightarrow>
          (length h,
           h @ [\<lparr>proto = Some ob,
                 own_schemas = Some \<lparr>schemas_args = [], schemas_return = CUndefined\<rparr>\<rparr>]))"

text \<open>
  \<^verbatim>\<open>builder._schemas.args = argSchemas\<close> and \<^verbatim>\<open>builder._schemas.return = returnSchema\<close>:
  the record that the chain of \<open>builder\<close> reaches is updated in place. Both run after
  \<^verbatim>\<open>getBuilderInstance\<close>, so the record is there
  (\<open>getBuilderInstance_has_schemas\<close> below).
\<close>

definition update_schemas :: "heap \<Rightarrow> nat \<Rightarrow> (schemas \<Rightarrow> schemas) \<Rightarrow> heap" where
  "update_schemas h builder f =
     (case schemas_owner h (length h) builder of
        None \<Rightarrow> h
      | Some ow \<Rightarrow> h[ow := (h ! ow)\<lparr>own_schemas := map_option f (own_schemas (h ! ow))\<rparr>])"

text \<open>
  The loop of \<^verbatim>\<open>args\<close> over \<^verbatim>\<open>argSchemas\<close> from index \<open>i\<close>: the error it throws, if any.
  The source tests \<^verbatim>\<open>parseAsync\<close> in both conjuncts.
\<close>

fun check_argSchemas :: "cand list \<Rightarrow> nat \<Rightarrow> val option" where
  "check_argSchemas [] i = None"
| "check_argSchemas (schema # rest) i =
     (if \<not> has_parseAsync schema \<and> \<not> has_parseAsync schema then
        Some (ZodFnError (show_nat (i + 1) @ getOrdinalSuffix (i + 1)
                            @ '' argument must be a valid Zod schema''))
      else check_argSchemas rest (i + 1))"

text \<open>
  The builder methods take the store and the receiver \<^verbatim>\<open>this\<close>; they return the error
  thrown or the builder returned, and the store they leave.
\<close>

definition args :: "heap \<Rightarrow> nat \<Rightarrow> cand list \<Rightarrow> (val + nat) \<times> heap" where
  "args h this argSchemas =
     (case getBuilderInstance h this of
        (builder, h1) \<Rightarrow>
          (if length argSchemas = 0 then (Inl (ZodFnError ''Argument schemas not provided''), h1)
           else (case check_argSchemas argSchemas 0 of
                   Some e \<Rightarrow> (Inl e, h1)
                 | None \<Rightarrow>
                     (Inr builder,
                      update_schemas h1 builder (\<lambda>s. s\<lparr>schemas_args := argSchemas\<rparr>)))))"

definition returns :: "heap \<Rightarrow> nat \<Rightarrow> cand \<Rightarrow> (val + nat) \<times> heap" where
  "returns h this returnSchema =
     (case getBuilderInstance h this of
        (builder, h1) \<Rightarrow>
          (case returnSchema of
             CUndefined \<Rightarrow> (Inl (ZodFnError ''Return schema not provided''), h1)
           | _ \<Rightarrow>
              (if \<not> has_parseAsync returnSchema \<and> \<not> has_parseAsync returnSchema then
                 (Inl (ZodFnError ''Return value must be a valid Zod schema''), h1)
               else
                 (Inr builder,
                  update_schemas h1 builder (\<lambda>s. s\<lparr>schemas_return := returnSchema\<rparr>)))))"

text \<open>
  An argument that has to be a function: \<^verbatim>\<open>undefined\<close>, another value that is no
  function, or the function.
\<close>

datatype 'f jsarg = Undefined | NotAFunction | Function 'f

text \<open>
  What \<^verbatim>\<open>_buildFn(z)\<close> returns: a value that is no object (or \<^verbatim>\<open>null\<close>), or an object with
  its \<^verbatim>\<open>args\<close> (\<open>None\<close> when absent or falsy, else the array) and its \<^verbatim>\<open>returns\<close>.
  The function itself is given by its completion: it throws, or returns.
\<close>

datatype build_result = NotAnObject | ResultObject "cand list option" cand

definition build :: "heap \<Rightarrow> nat \<Rightarrow> (val + build_result) jsarg \<Rightarrow> (val + nat) \<times> heap" where
  "build h this buildFn =
     (case getBuilderInstance h this of
        (builder, h1) \<Rightarrow>
          (case buildFn of
             Undefined \<Rightarrow> (Inl (ZodFnError ''Build function argument not provided''), h1)
           | NotAFunction \<Rightarrow> (Inl (ZodFnError ''Build argument must be a function''), h1)
           | Function (Inl e) \<Rightarrow> (Inl e, h1)
           | Function (Inr NotAnObject) \<Rightarrow>
               (Inl (ZodFnError ''Build function return value is not valid''), h1)
           | Function (Inr (ResultObject result_args result_returns)) \<Rightarrow>
               (case (case result_args of
                        None \<Rightarrow> (Inr builder, h1)
                      | Some xs \<Rightarrow> args h1 builder xs) of
                  (Inl e, h2) \<Rightarrow> (Inl e, h2)
                | (Inr b, h2) \<Rightarrow>
                    (if cand_truthy result_returns then
                       (case returns h2 builder result_returns of
                          (Inl e, h3) \<Rightarrow> (Inl e, h3)
                        | (Inr b', h3) \<Rightarrow> (Inr builder, h3))
                     else (Inr builder, h2)))))"

section \<open>Materialized callables\<close>

text \<open>
  The \<^verbatim>\<open>options\<close> object of \<^verbatim>\<open>getExecFn\<close>. The user's functions are given by the completion
  of a call: \<open>Return v\<close> (where \<open>v\<close> may be a promise) or \<open>Throw e\<close>. They do not call
  back into the callable or its mutators while a call is running.
\<close>

record options =
  execFn :: "val list \<Rightarrow> outcome"
  spyFn :: "val list \<Rightarrow> val \<Rightarrow> nat \<Rightarrow> outcome"
  spyFnCount :: nat
  onErrorFn :: "val \<Rightarrow> val list \<Rightarrow> outcome"

text \<open>
  A callable: the original function, the builder object its closure holds (a reference,
  read at every call), which of \<^verbatim>\<open>create\<close> and \<^verbatim>\<open>createAsync\<close> made it, and its options.
\<close>

record callable =
  ogFn :: "val list \<Rightarrow> outcome"
  builder :: nat
  isAsync :: bool
  opts :: options

definition no_op_spy :: "val list \<Rightarrow> val \<Rightarrow> nat \<Rightarrow> outcome" where
  "no_op_spy pargs ret count = Return VUndefined"

definition rethrow :: "val \<Rightarrow> val list \<Rightarrow> outcome" where
  "rethrow err pargs = Throw err"

definition getExecFn :: "(val list \<Rightarrow> outcome) \<Rightarrow> nat \<Rightarrow> bool \<Rightarrow> callable" where
  "getExecFn fn b async =
     \<lparr>ogFn = fn, builder = b, isAsync = async,
      opts = \<lparr>execFn = fn, spyFn = no_op_spy, spyFnCount = 0, onErrorFn = rethrow\<rparr>\<rparr>"

definition mock :: "callable \<Rightarrow> (val list \<Rightarrow> outcome) jsarg \<Rightarrow> val + callable" where
  "mock resFn m =
     (case m of
        Undefined \<Rightarrow> Inl (ZodFnError ''Mock function argument not provided'')
      | NotAFunction \<Rightarrow> Inl (ZodFnError ''Mock argument must be a function'')
      | Function f \<Rightarrow> Inr (resFn\<lparr>opts := (opts resFn)\<lparr>execFn := f\<rparr>\<rparr>))"

definition resetMock :: "callable \<Rightarrow> callable" where
  "resetMock resFn = resFn\<lparr>opts := (opts resFn)\<lparr>execFn := ogFn resFn\<rparr>\<rparr>"

definition spy :: "callable \<Rightarrow> (val list \<Rightarrow> val \<Rightarrow> nat \<Rightarrow> outcome) jsarg \<Rightarrow> val + callable" where
  "spy resFn sp =
     (case sp of
        Undefined \<Rightarrow> Inl (ZodFnError ''Spy handler function not provided'')
      | NotAFunction \<Rightarrow> Inl (ZodFnError ''Spy handler must be a function'')
      | Function f \<Rightarrow> Inr (resFn\<lparr>opts := (opts resFn)\<lparr>spyFnCount := 0, spyFn := f\<rparr>\<rparr>))"

definition resetSpy :: "callable \<Rightarrow> callable" where
  "resetSpy resFn = resFn\<lparr>opts := (opts resFn)\<lparr>spyFnCount := 0, spyFn := no_op_spy\<rparr>\<rparr>"

definition onError :: "callable \<Rightarrow> (val \<Rightarrow> val list \<Rightarrow> outcome) jsarg \<Rightarrow> val + callable" where
  "onError resFn oe =
     (case oe of
        Undefined \<Rightarrow> Inl (ZodFnError ''onError handler function not provided'')
      | NotAFunction \<Rightarrow> Inl (ZodFnError ''onError handler must be a function'')
      | Function f \<Rightarrow> Inr (resFn\<lparr>opts := (opts resFn)\<lparr>onErrorFn := f\<rparr>\<rparr>))"

text \<open>\<^verbatim>\<open>create(fn)\<close> and \<^verbatim>\<open>createAsync(fn)\<close>: the checks of \<^verbatim>\<open>fn\<close> come first.\<close>

definition materialize ::
  "bool \<Rightarrow> heap \<Rightarrow> nat \<Rightarrow> (val list \<Rightarrow> outcome) jsarg \<Rightarrow> (val + callable) \<times> heap" where
  "materialize async h this fn =
     (case fn of
        Undefined \<Rightarrow> (Inl (ZodFnError ''Create function not provided''), h)
      | NotAFunction \<Rightarrow> (Inl (ZodFnError ''Create argument must be a function''), h)
      | Function f \<Rightarrow>
          (case getBuilderInstance h this of
             (b, h1) \<Rightarrow> (Inr (getExecFn f b async), h1)))"

definition create ::
  "heap \<Rightarrow> nat \<Rightarrow> (val list \<Rightarrow> outcome) jsarg \<Rightarrow> (val + callable) \<times> heap" where
  "create h this fn = materialize False h this fn"

definition createAsync ::
  "heap \<Rightarrow> nat \<Rightarrow> (val list \<Rightarrow> outcome) jsarg \<Rightarrow> (val + callable) \<times> heap" where
  "createAsync h this fn = materialize True h this fn"

section \<open>The call pipeline\<close>

text \<open>
  A call is observed through the stages it reaches, in program order: each call of
  \<^verbatim>\<open>argValidation\<close> (position and argument), of the implementation, of the error handler,
  of \<^verbatim>\<open>returnValidation\<close> (the value it is given), of the spy (with the counter it is
  passed), and each \<^verbatim>\<open>.catch(() => {})\<close> attached to a promise.
\<close>

datatype event =
    EvArgValidation nat val
  | EvExecFn "val list"
  | EvOnErrorFn val "val list"
  | EvReturnValidation val
  | EvSpyFn "val list" val nat
  | EvCatch val

text \<open>\<^verbatim>\<open>await\<close> of an expression that may itself throw.\<close>

fun await_outcome :: "outcome \<Rightarrow> outcome" where
  "await_outcome (Throw e) = Throw e"
| "await_outcome (Return v) = await v"

text \<open>
  The loop over the call's arguments, from index \<open>i\<close> with \<open>parsedArgs\<close> collected so
  far. \<^verbatim>\<open>create\<close> pushes the result of the synchronous \<^verbatim>\<open>argValidation\<close>, \<^verbatim>\<open>createAsync\<close>
  awaits the asynchronous one; the loops are the same otherwise. An index beyond
  \<^verbatim>\<open>_schemas.args\<close> reads \<^verbatim>\<open>undefined\<close>.
\<close>

fun validate_args ::
  "json_parse \<Rightarrow> bool \<Rightarrow> cand list \<Rightarrow> val list \<Rightarrow> nat \<Rightarrow> val list
     \<Rightarrow> (val + val list) \<times> event list" where
  "validate_args jp async ss [] i parsedArgs = (Inr parsedArgs, [])"
| "validate_args jp async ss (a # rest) i parsedArgs =
     (case (if i < length ss then ss ! i else CUndefined) of
        CObj sc \<Rightarrow>
          (case (if async then await_outcome (argValidation jp a (i + 1) (CObj sc) True)
                 else argValidation jp a (i + 1) (CObj sc) False) of
             Throw e \<Rightarrow> (Inl e, [EvArgValidation (i + 1) a])
           | Return v \<Rightarrow>
               (case validate_args jp async ss rest (i + 1) (parsedArgs @ [v]) of
                  (r, tr) \<Rightarrow> (r, EvArgValidation (i + 1) a # tr)))
      | _ \<Rightarrow> validate_args jp async ss rest (i + 1) (parsedArgs @ [a]))"

text \<open>
  The end of the synchronous pipeline of \<^verbatim>\<open>create\<close>: return validation, counter, spy.
  The result is the completion of the call, the options it leaves and its stages.
\<close>

definition create_finish ::
  "json_parse \<Rightarrow> schemas \<Rightarrow> options \<Rightarrow> val list \<Rightarrow> val
     \<Rightarrow> outcome \<times> options \<times> event list" where
  "create_finish jp s bo parsedArgs ret0 =
     (case returnValidation jp ret0 (schemas_return s) False of
        Throw e \<Rightarrow> (Throw e, bo, [EvReturnValidation ret0])
      | Return ret \<Rightarrow>
          (let bo' = bo\<lparr>spyFnCount := spyFnCount bo + 1\<rparr> in
           (case spyFn bo' parsedArgs ret (spyFnCount bo') of
              Throw e \<Rightarrow>
                (Throw e, bo',
                 [EvReturnValidation ret0, EvSpyFn parsedArgs ret (spyFnCount bo')])
            | Return spyFnRes \<Rightarrow>
                (if instanceof_Promise spyFnRes then
                   (Throw (ZodFnError
                      ''Spy handler function cannot return a promise in a synchronous context''),
                    bo',
                    [EvReturnValidation ret0, EvSpyFn parsedArgs ret (spyFnCount bo'),
                     EvCatch spyFnRes])
                 else
                   (Return ret, bo',
                    [EvReturnValidation ret0, EvSpyFn parsedArgs ret (spyFnCount bo')])))))"

text \<open>
  The \<^verbatim>\<open>async\<close> closure of \<^verbatim>\<open>create\<close>, entered when the implementation returned the promise
  \<open>p\<close>: the completion is the one the closure's promise settles with.
\<close>

definition create_async_branch ::
  "json_parse \<Rightarrow> schemas \<Rightarrow> options \<Rightarrow> val list \<Rightarrow> val
     \<Rightarrow> outcome \<times> options \<times> event list" where
  "create_async_branch jp s bo parsedArgs p =
     (case (case await p of
              Return v \<Rightarrow> (Return v, [])
            | Throw error \<Rightarrow>
                (await_outcome (onErrorFn bo error parsedArgs),
                 [EvOnErrorFn error parsedArgs])) of
        (Throw e, tr) \<Rightarrow> (Throw e, bo, tr)
      | (Return ret0, tr) \<Rightarrow>
          (case returnValidation jp ret0 (schemas_return s) False of
             Throw e \<Rightarrow> (Throw e, bo, tr @ [EvReturnValidation ret0])
           | Return ret \<Rightarrow>
               (let bo' = bo\<lparr>spyFnCount := spyFnCount bo + 1\<rparr> in
                (case await_outcome (spyFn bo' parsedArgs ret (spyFnCount bo')) of
                   Throw e \<Rightarrow>
                     (Throw e, bo',
                      tr @ [EvReturnValidation ret0, EvSpyFn parsedArgs ret (spyFnCount bo')])
                 | Return u \<Rightarrow>
                     (await ret, bo',
                      tr @ [EvReturnValidation ret0,
                            EvSpyFn parsedArgs ret (spyFnCount bo')])))))"

text \<open>The function that \<^verbatim>\<open>create\<close> hands to \<^verbatim>\<open>getExecFn\<close>, called with \<open>args\<close>.\<close>

definition create_call ::
  "json_parse \<Rightarrow> schemas \<Rightarrow> options \<Rightarrow> val list \<Rightarrow> outcome \<times> options \<times> event list" where
  "create_call jp s bo call_args =
     (case validate_args jp False (schemas_args s) call_args 0 [] of
        (Inl e, tr) \<Rightarrow> (Throw e, bo, tr)
      | (Inr parsedArgs, tr) \<Rightarrow>
          (case execFn bo parsedArgs of
             Return ret \<Rightarrow>
               (if instanceof_Promise ret then
                  (case create_async_branch jp s bo parsedArgs ret of
                     (c, bo', tr') \<Rightarrow>
                       (Return (VPromise c), bo', tr @ [EvExecFn parsedArgs] @ tr'))
                else
                  (case create_finish jp s bo parsedArgs ret of
                     (c, bo', tr') \<Rightarrow> (c, bo', tr @ [EvExecFn parsedArgs] @ tr')))
           | Throw error \<Rightarrow>
               (case onErrorFn bo error parsedArgs of
                  Throw e \<Rightarrow>
                    (Throw e, bo, tr @ [EvExecFn parsedArgs, EvOnErrorFn error parsedArgs])
                | Return ret \<Rightarrow>
                    (if instanceof_Promise ret then
                       (Throw (ZodFnError
                          ''onError handler function cannot return a promise in a synchronous context''),
                        bo,
                        tr @ [EvExecFn parsedArgs, EvOnErrorFn error parsedArgs, EvCatch ret])
                     else
                       (case create_finish jp s bo parsedArgs ret of
                          (c, bo', tr') \<Rightarrow>
                            (c, bo',
                             tr @ [EvExecFn parsedArgs, EvOnErrorFn error parsedArgs] @ tr'))))))"

text \<open>
  The \<^verbatim>\<open>async\<close> function that \<^verbatim>\<open>createAsync\<close> hands to \<^verbatim>\<open>getExecFn\<close>: the completion its
  promise settles with.
\<close>

definition createAsync_body ::
  "json_parse \<Rightarrow> schemas \<Rightarrow> options \<Rightarrow> val list \<Rightarrow> outcome \<times> options \<times> event list" where
  "createAsync_body jp s bo call_args =
     (case validate_args jp True (schemas_args s) call_args 0 [] of
        (Inl e, tr) \<Rightarrow> (Throw e, bo, tr)
      | (Inr parsedArgs, tr) \<Rightarrow>
          (case (case await_outcome (execFn bo parsedArgs) of
                   Return v \<Rightarrow> (Return v, [EvExecFn parsedArgs])
                 | Throw error \<Rightarrow>
                     (await_outcome (onErrorFn bo error parsedArgs),
                      [EvExecFn parsedArgs, EvOnErrorFn error parsedArgs])) of
             (Throw e, tr1) \<Rightarrow> (Throw e, bo, tr @ tr1)
           | (Return ret0, tr1) \<Rightarrow>
               (case await_outcome (returnValidation jp ret0 (schemas_return s) True) of
                  Throw e \<Rightarrow> (Throw e, bo, tr @ tr1 @ [EvReturnValidation ret0])
                | Return ret \<Rightarrow>
                    (let bo' = bo\<lparr>spyFnCount := spyFnCount bo + 1\<rparr> in
                     (case await_outcome (spyFn bo' parsedArgs ret (spyFnCount bo')) of
                        Throw e \<Rightarrow>
                          (Throw e, bo',
                           tr @ tr1 @ [EvReturnValidation ret0,
                                       EvSpyFn parsedArgs ret (spyFnCount bo')])
                      | Return u \<Rightarrow>
                          (await ret, bo',
                           tr @ tr1 @ [EvReturnValidation ret0,
                                       EvSpyFn parsedArgs ret (spyFnCount bo')]))))))"

definition createAsync_call ::
  "json_parse \<Rightarrow> schemas \<Rightarrow> options \<Rightarrow> val list \<Rightarrow> outcome \<times> options \<times> event list" where
  "createAsync_call jp s bo call_args =
     (case createAsync_body jp s bo call_args of
        (c, bo', tr) \<Rightarrow> (Return (VPromise c), bo', tr))"

text \<open>The closure of a callable made by \<^verbatim>\<open>createAsync\<close> (\<open>async\<close>) or by \<^verbatim>\<open>create\<close>.\<close>

definition run ::
  "bool \<Rightarrow> json_parse \<Rightarrow> schemas \<Rightarrow> options \<Rightarrow> val list
     \<Rightarrow> outcome \<times> options \<times> event list" where
  "run async jp s bo call_args =
     (if async then createAsync_call jp s bo call_args else create_call jp s bo call_args)"

text \<open>
  Calling a callable in the store \<open>h\<close>: the closure reads \<^verbatim>\<open>builder._schemas\<close> at the call.
  The result is the completion, the callable with its options as the call leaves them,
  and the stages. A callable made by \<^verbatim>\<open>create\<close> or \<^verbatim>\<open>createAsync\<close> always finds the
  record (\<open>materialize_has_schemas\<close> below).
\<close>

definition invoke ::
  "json_parse \<Rightarrow> heap \<Rightarrow> callable \<Rightarrow> val list \<Rightarrow> outcome \<times> callable \<times> event list" where
  "invoke jp h resFn call_args =
     (case read_schemas h (builder resFn) of
        None \<Rightarrow>
          (Throw (VError ''TypeError'' ''Cannot read properties of undefined (reading 'args')''),
           resFn, [])
      | Some s \<Rightarrow>
          (case run (isAsync resFn) jp s (opts resFn) call_args of
             (c, bo', tr) \<Rightarrow> (c, resFn\<lparr>opts := bo'\<rparr>, tr)))"

section \<open>Notions used in the statements\<close>

text \<open>
  An error reaches the caller: thrown by the call, or as the rejection of the promise the
  call returns.
\<close>

definition fails_with :: "outcome \<Rightarrow> val \<Rightarrow> bool" where
  "fails_with c e = (c = Throw e \<or> c = Return (VPromise (Throw e)))"

text \<open>
  The completion of the return validation stage on the value \<open>v\<close>: \<^verbatim>\<open>create\<close> takes the
  result of the synchronous \<^verbatim>\<open>returnValidation\<close>, \<^verbatim>\<open>createAsync\<close> awaits the asynchronous one.
\<close>

definition return_stage :: "bool \<Rightarrow> json_parse \<Rightarrow> schemas \<Rightarrow> val \<Rightarrow> outcome" where
  "return_stage async jp s v =
     (if async then await_outcome (returnValidation jp v (schemas_return s) True)
      else returnValidation jp v (schemas_return s) False)"

text \<open>
  Whether the rest of a call runs inside a promise: always in a closure made by
  \<^verbatim>\<open>createAsync\<close>; in one made by \<^verbatim>\<open>create\<close>, when the implementation returned a promise.
\<close>

definition in_promise :: "bool \<Rightarrow> options \<Rightarrow> val list \<Rightarrow> bool" where
  "in_promise async bo pa =
     (async \<or> (case execFn bo pa of Return p \<Rightarrow> instanceof_Promise p | Throw e \<Rightarrow> False))"

text \<open>
  The completion of the \<^verbatim>\<open>try\<close>/\<^verbatim>\<open>catch\<close> around the implementation (lines 287 to 323
  and 367 to 379 of \<^verbatim>\<open>src/index.js\<close>), on the parsed arguments \<open>pa\<close>: the value of the implementation (awaited inside a promise), or, when
  it throws or rejects, what the error handler makes of the error. Inside a promise the
  handler's result is awaited; in the synchronous pipeline of \<^verbatim>\<open>create\<close> a handler that
  returns a promise is an error. The stage of the handler, when it is called.
\<close>

definition recovery_stage :: "bool \<Rightarrow> options \<Rightarrow> val list \<Rightarrow> outcome" where
  "recovery_stage async bo pa =
     (if in_promise async bo pa then
        (case await_outcome (execFn bo pa) of
           Return v \<Rightarrow> Return v
         | Throw err \<Rightarrow> await_outcome (onErrorFn bo err pa))
      else
        (case execFn bo pa of
           Return v \<Rightarrow> Return v
         | Throw err \<Rightarrow>
             (case onErrorFn bo err pa of
                Throw e \<Rightarrow> Throw e
              | Return u \<Rightarrow>
                  (if instanceof_Promise u then
                     Throw (ZodFnError
                       ''onError handler function cannot return a promise in a synchronous context'')
                   else Return u))))"

definition handler_stages :: "options \<Rightarrow> val list \<Rightarrow> event list" where
  "handler_stages bo pa =
     (case await_outcome (execFn bo pa) of
        Throw err \<Rightarrow> [EvOnErrorFn err pa]
      | Return v \<Rightarrow> [])"

text \<open>
  The completion of a call that reached the spy, from the completion of the spy's call
  and the validated result \<open>r\<close> (lines 303 to 310, 326 to 337 and 382 to 389 of
  \<^verbatim>\<open>src/index.js\<close>): inside a promise the spy's result is awaited and the promise is
  resolved with \<open>r\<close> or rejected with the spy's error; in the synchronous pipeline of
  \<^verbatim>\<open>create\<close> the spy's error is thrown, a promise from the spy is an error, and
  otherwise \<open>r\<close> is returned.
\<close>

definition spy_stage_outcome :: "bool \<Rightarrow> outcome \<Rightarrow> val \<Rightarrow> outcome" where
  "spy_stage_outcome inside spy_completion r =
     (if inside then
        Return (VPromise (case await_outcome spy_completion of
                            Throw e \<Rightarrow> Throw e
                          | Return u \<Rightarrow> await r))
      else
        (case spy_completion of
           Throw e \<Rightarrow> Throw e
         | Return u \<Rightarrow>
             (if instanceof_Promise u then
                Throw (ZodFnError
                  ''Spy handler function cannot return a promise in a synchronous context'')
              else Return r)))"

text \<open>
  The parsed arguments and the validated result of a call in which argument validation,
  the implementation or the error handler, and return validation all succeed; \<open>None\<close>
  when one of them fails.
\<close>

definition spy_input ::
  "bool \<Rightarrow> json_parse \<Rightarrow> schemas \<Rightarrow> options \<Rightarrow> val list \<Rightarrow> (val list \<times> val) option" where
  "spy_input async jp s bo call_args =
     (case fst (validate_args jp async (schemas_args s) call_args 0 []) of
        Inl e \<Rightarrow> None
      | Inr pa \<Rightarrow>
          (case recovery_stage async bo pa of
             Throw e \<Rightarrow> None
           | Return v \<Rightarrow>
               (case return_stage async jp s v of
                  Throw e \<Rightarrow> None
                | Return r \<Rightarrow> Some (pa, r))))"

text \<open>
  A sequence of calls of the same callable, each on the callable as the call before left
  it: the completions, and the callable after the last call.
\<close>

fun invoke_calls ::
  "json_parse \<Rightarrow> heap \<Rightarrow> callable \<Rightarrow> val list list \<Rightarrow> outcome list \<times> callable" where
  "invoke_calls jp h resFn [] = ([], resFn)"
| "invoke_calls jp h resFn (call_args # rest) =
     (case invoke jp h resFn call_args of
        (c, resFn', tr) \<Rightarrow>
          (case invoke_calls jp h resFn' rest of (cs, resFn'') \<Rightarrow> (c # cs, resFn'')))"

text \<open>
  The configuration steps of the builder as data, a step applied to a receiver, and a chain
  of steps, each applied to the builder the one before returned; a chain stops at the
  first error.
\<close>

datatype config_step = StepArgs "cand list" | StepReturns cand | StepBuild "(val + build_result) jsarg"

fun apply_step :: "heap \<Rightarrow> nat \<Rightarrow> config_step \<Rightarrow> (val + nat) \<times> heap" where
  "apply_step h this (StepArgs argSchemas) = args h this argSchemas"
| "apply_step h this (StepReturns returnSchema) = returns h this returnSchema"
| "apply_step h this (StepBuild buildFn) = build h this buildFn"

fun chain :: "heap \<Rightarrow> nat \<Rightarrow> config_step list \<Rightarrow> (val + nat) \<times> heap" where
  "chain h b [] = (Inr b, h)"
| "chain h b (st # sts) =
     (case apply_step h b st of
        (Inl e, h') \<Rightarrow> (Inl e, h')
      | (Inr b', h') \<Rightarrow> chain h' b' sts)"

section \<open>Example inputs\<close>

text \<open>The store that holds \<^verbatim>\<open>zfn\<close> alone: no prototype of interest, no \<^verbatim>\<open>_schemas\<close>.\<close>

definition zfn :: nat where
  "zfn = 0"

definition zfn_heap :: heap where
  "zfn_heap = [\<lparr>proto = None, own_schemas = None\<rparr>]"

text \<open>A schema that accepts every value unchanged, and one that rejects every value.\<close>

definition ex_accept :: schema where
  "ex_accept = \<lparr>parse = Some (\<lambda>v. Inr v), parseAsync = Some (\<lambda>v. Inr v)\<rparr>"

definition ex_reject :: schema where
  "ex_reject = \<lparr>parse = Some (\<lambda>v. Inl ''ISSUES''), parseAsync = Some (\<lambda>v. Inl ''ISSUES'')\<rparr>"

text \<open>
  A \<^verbatim>\<open>JSON.parse\<close> that reads the message \<^verbatim>\<open>ISSUES\<close> as the issue list
  \<^verbatim>\<open>[{message: "bad", path: ["a", 0]}]\<close> and fails on every other string.
\<close>

definition ex_issue :: "(string \<times> json) list" where
  "ex_issue = [(''message'', JStr ''bad''), (''path'', JArr [JStr ''a'', JNum 0])]"

definition ex_jp :: json_parse where
  "ex_jp m = (if m = ''ISSUES'' then Some (JArr (JObj ex_issue # [])) else None)"

text \<open>Configurations, implementations, handlers and options for the examples.\<close>

definition ex_schemas_reject_arg :: schemas where
  "ex_schemas_reject_arg = \<lparr>schemas_args = [CObj ex_reject], schemas_return = CUndefined\<rparr>"

definition ex_schemas_reject_return :: schemas where
  "ex_schemas_reject_return = \<lparr>schemas_args = [CObj ex_accept], schemas_return = CObj ex_reject\<rparr>"

definition ex_schemas_accept :: schemas where
  "ex_schemas_accept = \<lparr>schemas_args = [CObj ex_accept], schemas_return = CObj ex_accept\<rparr>"

definition ex_fn :: "val list \<Rightarrow> outcome" where
  "ex_fn xs = Return (VArr xs)"

definition ex_boom :: val where
  "ex_boom = VError ''Error'' ''boom''"

definition ex_throwing_fn :: "val list \<Rightarrow> outcome" where
  "ex_throwing_fn xs = Throw ex_boom"

definition ex_recover :: "val \<Rightarrow> val list \<Rightarrow> outcome" where
  "ex_recover err pargs = Return (VNum 0)"

definition ex_async_recover :: "val \<Rightarrow> val list \<Rightarrow> outcome" where
  "ex_async_recover err pargs = Return (VPromise (Return (VNum 0)))"

definition ex_options :: "(val list \<Rightarrow> outcome) \<Rightarrow> (val \<Rightarrow> val list \<Rightarrow> outcome) \<Rightarrow> options" where
  "ex_options fn handler = \<lparr>execFn = fn, spyFn = no_op_spy, spyFnCount = 0, onErrorFn = handler\<rparr>"

definition ex_schemas_two :: schemas where
  "ex_schemas_two = \<lparr>schemas_args = [CObj ex_accept, CObj ex_reject], schemas_return = CUndefined\<rparr>"

text \<open>
  A spy that throws what it was passed; options with a throwing implementation, that spy
  and the counter at 7; a schema that wraps the value it is given in an array.
\<close>

definition ex_spy :: "val list \<Rightarrow> val \<Rightarrow> nat \<Rightarrow> outcome" where
  "ex_spy pargs ret count = Throw (VArr [VArr pargs, ret, VNum (int count)])"

definition ex_spied_options :: "(val \<Rightarrow> val list \<Rightarrow> outcome) \<Rightarrow> options" where
  "ex_spied_options handler =
     \<lparr>execFn = ex_throwing_fn, spyFn = ex_spy, spyFnCount = 7, onErrorFn = handler\<rparr>"

definition ex_wrap :: schema where
  "ex_wrap = \<lparr>parse = Some (\<lambda>v. Inr (VArr [v])), parseAsync = Some (\<lambda>v. Inr (VArr [v]))\<rparr>"

definition ex_schemas_wrap :: schemas where
  "ex_schemas_wrap = \<lparr>schemas_args = [CObj ex_accept], schemas_return = CObj ex_wrap\<rparr>"

text \<open>
  A schema with \<^verbatim>\<open>parseAsync\<close> and no \<^verbatim>\<open>parse\<close>; the stores after \<^verbatim>\<open>zfn.args(accept)\<close>, after
  a further \<^verbatim>\<open>returns(reject)\<close> or \<^verbatim>\<open>args(reject)\<close> on the builder it returned, and after a
  second chain \<^verbatim>\<open>zfn.returns(reject)\<close>; the callable that \<^verbatim>\<open>create\<close> makes on that builder.
\<close>

definition ex_async_only :: schema where
  "ex_async_only = \<lparr>parse = None, parseAsync = Some (\<lambda>v. Inr v)\<rparr>"

definition ex_heap1 :: heap where
  "ex_heap1 = zfn_heap @ [\<lparr>proto = Some zfn,
      own_schemas = Some \<lparr>schemas_args = [CObj ex_accept], schemas_return = CUndefined\<rparr>\<rparr>]"

definition ex_heap2 :: heap where
  "ex_heap2 = zfn_heap @ [\<lparr>proto = Some zfn,
      own_schemas = Some \<lparr>schemas_args = [CObj ex_accept], schemas_return = CObj ex_reject\<rparr>\<rparr>]"

definition ex_heap3 :: heap where
  "ex_heap3 = zfn_heap @ [\<lparr>proto = Some zfn,
      own_schemas = Some \<lparr>schemas_args = [CObj ex_reject], schemas_return = CUndefined\<rparr>\<rparr>]"

definition ex_callable :: callable where
  "ex_callable = getExecFn ex_fn 1 False"

definition ex_heap4 :: heap where
  "ex_heap4 = ex_heap1 @ [\<lparr>proto = Some zfn,
      own_schemas = Some \<lparr>schemas_args = [], schemas_return = CObj ex_reject\<rparr>\<rparr>]"

text \<open>
  The \<^verbatim>\<open>_schemas\<close> record of the builder at address 1 in \<open>ex_heap1\<close>, and the callable on
  it with the counter at 7.
\<close>

definition ex_schemas1 :: schemas where
  "ex_schemas1 = \<lparr>schemas_args = [CObj ex_accept], schemas_return = CUndefined\<rparr>"

definition ex_called :: callable where
  "ex_called = ex_callable\<lparr>opts := (opts ex_callable)\<lparr>spyFnCount := 7\<rparr>\<rparr>"

section \<open>Error messages\<close>

lemma replace_first_skip:
  "pat \<noteq> [] \<Longrightarrow> hd pat \<notin> set p \<Longrightarrow> replace_first pat rep (p @ s) = p @ replace_first pat rep s"
  by (induction p) (cases pat; auto)+

lemma digit_char_not_p: "d < 10 \<Longrightarrow> digit_char d \<noteq> CHR ''p''"
proof
  assume d: "d < 10" and eq: "digit_char d = CHR ''p''"
  from eq have "(of_char (digit_char d) :: nat) = of_char (CHR ''p'')" by simp
  then have "(48 + d) mod 256 = 112" by (simp add: digit_char_def)
  with d show False by simp
qed

lemma show_nat_no_p: "CHR ''p'' \<notin> set (show_nat n)"
proof (induction n rule: show_nat.induct)
  case (1 n)
  show ?case
  proof (cases "n < 10")
    case True
    then have "digit_char n \<noteq> CHR ''p''" by (rule digit_char_not_p)
    with True show ?thesis by (subst show_nat.simps) auto
  next
    case False
    have "n mod 10 < 10" by simp
    then have "digit_char (n mod 10) \<noteq> CHR ''p''" by (rule digit_char_not_p)
    with False 1 show ?thesis by (subst show_nat.simps) auto
  qed
qed

lemma suffix_no_p: "CHR ''p'' \<notin> set (getOrdinalSuffix n)"
  by (simp add: getOrdinalSuffix_def Let_def)

lemma fix_entry_point_skip:
  "CHR ''p'' \<notin> set p \<Longrightarrow> fix_entry_point (p @ s) = p @ fix_entry_point s"
  unfolding fix_entry_point_def by (rule replace_first_skip) simp_all

lemma throwError_structured:
  assumes "jp m = Some (JArr (JObj fs # rest))"
    and "map_of fs ''message'' = Some msg" and "json_truthy (Some msg)"
    and "map_of fs ''path'' = Some (JArr segs)"
    and "CHR ''p'' \<notin> set label"
  shows "throwError jp label m =
     ZodFnError (''Validation failed for '' @ label @
       fix_entry_point ((if js_join ''.'' segs \<noteq> [] then '' - Path: '' @ js_join ''.'' segs else [])
                         @ '' - '' @ js_String msg))"
proof -
  have p: "CHR ''p'' \<notin> set (''Validation failed for '' @ label)"
    using assms(5) by simp
  show ?thesis
    using assms(1-4) fix_entry_point_skip [OF p]
    by (simp add: throwError_def Let_def)
qed

text \<open>
  C6. Let a schema fail with a message that \<^verbatim>\<open>JSON.parse\<close> reads as an array whose first
  element is an object with a truthy \<^verbatim>\<open>message\<close> and an array as \<^verbatim>\<open>path\<close>. Then the error
  of \<^verbatim>\<open>argValidation\<close> at the 1-based position \<open>n\<close>, thrown or as the rejection of its
  promise, is a \<^verbatim>\<open>ZodFnError\<close> whose message begins
  \<^verbatim>\<open>Validation failed for <n><suffix> argument\<close>, and the error of \<^verbatim>\<open>returnValidation\<close> is
  one whose message begins \<^verbatim>\<open>Validation failed for return value\<close>. The suffix of \<open>n\<close> is
  \<^verbatim>\<open>th\<close> when the last two digits are 11, 12 or 13, else \<^verbatim>\<open>st\<close>, \<^verbatim>\<open>nd\<close>, \<^verbatim>\<open>rd\<close> for
  the last digit 1, 2, 3, and \<^verbatim>\<open>th\<close> otherwise; for 1, 2, 3, 4, 11, 12, 13, 21 it is
  st, nd, rd, th, th, th, th, st.
\<close>

theorem validation_message_prefix:
  assumes "jp m = Some (JArr (JObj fs # rest))"
    and "map_of fs ''message'' = Some msg" and "json_truthy (Some msg)"
    and "map_of fs ''path'' = Some (JArr segs)"
  shows "(\<exists>tail. \<forall>arg schema.
            (call_parse schema arg = Inl m \<longrightarrow>
               argValidation jp arg n schema False =
                 Throw (ZodFnError (''Validation failed for '' @ show_nat n @ getOrdinalSuffix n
                                      @ '' argument'' @ tail)))
          \<and> (call_parseAsync schema arg = Inl m \<longrightarrow>
               argValidation jp arg n schema True =
                 Return (VPromise (Throw (ZodFnError
                    (''Validation failed for '' @ show_nat n @ getOrdinalSuffix n
                       @ '' argument'' @ tail)))))
          \<and> (schema \<noteq> CUndefined \<and> call_parse schema arg = Inl m \<longrightarrow>
               returnValidation jp arg schema False =
                 Throw (ZodFnError (''Validation failed for return value'' @ tail)))
          \<and> (schema \<noteq> CUndefined \<and> call_parseAsync schema arg = Inl m \<longrightarrow>
               returnValidation jp arg schema True =
                 Return (VPromise (Throw (ZodFnError
                    (''Validation failed for return value'' @ tail))))))
       \<and> getOrdinalSuffix n =
           (if n mod 100 \<in> {11, 12, 13} then ''th''
            else if n mod 10 = 1 then ''st''
            else if n mod 10 = 2 then ''nd''
            else if n mod 10 = 3 then ''rd''
            else ''th'')
       \<and> map getOrdinalSuffix [1, 2, 3, 4, 11, 12, 13, 21] =
           [''st'', ''nd'', ''rd'', ''th'', ''th'', ''th'', ''th'', ''st'']"
proof -
  let ?tail = "fix_entry_point
     ((if js_join ''.'' segs \<noteq> [] then '' - Path: '' @ js_join ''.'' segs else [])
        @ '' - '' @ js_String msg)"
  have a: "CHR ''p'' \<notin> set (show_nat n @ getOrdinalSuffix n @ '' argument'')"
    using show_nat_no_p [of n] suffix_no_p [of n] by simp
  have r: "CHR ''p'' \<notin> set ''return value''" by simp
  have ta: "argValidation_throwError jp n m =
      ZodFnError (''Validation failed for '' @ show_nat n @ getOrdinalSuffix n
                    @ '' argument'' @ ?tail)"
    unfolding argValidation_throwError_def
    using throwError_structured [of jp m fs rest msg segs, OF assms a] by simp
  have tr: "returnValidation_throwError jp m =
      ZodFnError (''Validation failed for return value'' @ ?tail)"
    unfolding returnValidation_throwError_def
    using throwError_structured [of jp m fs rest msg segs, OF assms r] by simp
  have 1: "\<forall>arg schema.
            (call_parse schema arg = Inl m \<longrightarrow>
               argValidation jp arg n schema False =
                 Throw (ZodFnError (''Validation failed for '' @ show_nat n @ getOrdinalSuffix n
                                      @ '' argument'' @ ?tail)))
          \<and> (call_parseAsync schema arg = Inl m \<longrightarrow>
               argValidation jp arg n schema True =
                 Return (VPromise (Throw (ZodFnError
                    (''Validation failed for '' @ show_nat n @ getOrdinalSuffix n
                       @ '' argument'' @ ?tail)))))
          \<and> (schema \<noteq> CUndefined \<and> call_parse schema arg = Inl m \<longrightarrow>
               returnValidation jp arg schema False =
                 Throw (ZodFnError (''Validation failed for return value'' @ ?tail)))
          \<and> (schema \<noteq> CUndefined \<and> call_parseAsync schema arg = Inl m \<longrightarrow>
               returnValidation jp arg schema True =
                 Return (VPromise (Throw (ZodFnError
                    (''Validation failed for return value'' @ ?tail)))))"
    by (auto simp: argValidation_def returnValidation_def ta tr split: cand.splits)
  have 2: "getOrdinalSuffix n =
           (if n mod 100 \<in> {11, 12, 13} then ''th''
            else if n mod 10 = 1 then ''st''
            else if n mod 10 = 2 then ''nd''
            else if n mod 10 = 3 then ''rd''
            else ''th'')"
  proof -
    have "n mod 10 = (n mod 100) mod 10" by (simp add: mod_mod_cancel)
    then show ?thesis by (auto simp: getOrdinalSuffix_def Let_def)
  qed
  have 3: "map getOrdinalSuffix [1, 2, 3, 4, 11, 12, 13, 21] =
           [''st'', ''nd'', ''rd'', ''th'', ''th'', ''th'', ''th'', ''st'']"
    by (simp add: getOrdinalSuffix_def Let_def)
  from 1 2 3 show ?thesis by blast
qed

theorem validation_message_prefix_witness:
  "ex_jp ''ISSUES'' = Some (JArr (JObj ex_issue # []))
   \<and> map_of ex_issue ''message'' = Some (JStr ''bad'')
   \<and> json_truthy (Some (JStr ''bad''))
   \<and> map_of ex_issue ''path'' = Some (JArr [JStr ''a'', JNum 0])
   \<and> call_parse (CObj ex_reject) (VStr ''13'') = Inl ''ISSUES''
   \<and> CObj ex_reject \<noteq> CUndefined
   \<and> (\<exists>tail. argValidation ex_jp (VStr ''13'') 2 (CObj ex_reject) False =
                 Throw (ZodFnError (''Validation failed for 2nd argument'' @ tail))
            \<and> returnValidation ex_jp (VStr ''13'') (CObj ex_reject) False =
                 Throw (ZodFnError (''Validation failed for return value'' @ tail)))"
proof -
  have h1: "ex_jp ''ISSUES'' = Some (JArr (JObj ex_issue # []))" by (simp add: ex_jp_def)
  have h2: "map_of ex_issue ''message'' = Some (JStr ''bad'')" by (simp add: ex_issue_def)
  have h3: "json_truthy (Some (JStr ''bad''))" by simp
  have h4: "map_of ex_issue ''path'' = Some (JArr [JStr ''a'', JNum 0])"
    by (simp add: ex_issue_def)
  have c: "call_parse (CObj ex_reject) (VStr ''13'') = Inl ''ISSUES''"
    by (simp add: ex_reject_def)
  have n: "CObj ex_reject \<noteq> CUndefined" by simp
  have s: "show_nat 2 @ getOrdinalSuffix 2 @ '' argument'' = ''2nd argument''"
    by code_simp
  from validation_message_prefix
         [of ex_jp "''ISSUES''" ex_issue "[]" "JStr ''bad''" "[JStr ''a'', JNum 0]" 2,
          OF h1 h2 h3 h4]
  obtain tail where t: "\<forall>arg schema.
            (call_parse schema arg = Inl ''ISSUES'' \<longrightarrow>
               argValidation ex_jp arg 2 schema False =
                 Throw (ZodFnError (''Validation failed for '' @ show_nat 2 @ getOrdinalSuffix 2
                                      @ '' argument'' @ tail)))
          \<and> (schema \<noteq> CUndefined \<and> call_parse schema arg = Inl ''ISSUES'' \<longrightarrow>
               returnValidation ex_jp arg schema False =
                 Throw (ZodFnError (''Validation failed for return value'' @ tail)))"
    by blast
  from t c n have "argValidation ex_jp (VStr ''13'') 2 (CObj ex_reject) False =
                 Throw (ZodFnError (''Validation failed for ''
                    @ (show_nat 2 @ getOrdinalSuffix 2 @ '' argument'') @ tail))
     \<and> returnValidation ex_jp (VStr ''13'') (CObj ex_reject) False =
                 Throw (ZodFnError (''Validation failed for return value'' @ tail))"
    by simp
  then have "argValidation ex_jp (VStr ''13'') 2 (CObj ex_reject) False =
                 Throw (ZodFnError (''Validation failed for 2nd argument'' @ tail))
     \<and> returnValidation ex_jp (VStr ''13'') (CObj ex_reject) False =
                 Throw (ZodFnError (''Validation failed for return value'' @ tail))"
    unfolding s by simp
  with h1 h2 h3 h4 c n show ?thesis by blast
qed

section \<open>The call pipeline: stages of a call\<close>

lemma await_plain: "\<not> instanceof_Promise v \<Longrightarrow> await v = Return v"
  by (cases v) auto

lemma create_finish_cases [consumes 1, case_names Fail Spied]:
  assumes "create_finish jp s bo pa v = (c, bo', rest)"
  obtains (Fail) e where "return_stage False jp s v = Throw e" "rest = [EvReturnValidation v]"
              "c = Throw e" "bo' = bo"
  | (Spied) r post where "return_stage False jp s v = Return r"
              "rest = [EvReturnValidation v, EvSpyFn pa r (spyFnCount bo + 1)] @ post"
              "\<forall>ev \<in> set post. \<exists>p. ev = EvCatch p"
              "bo' = bo\<lparr>spyFnCount := spyFnCount bo + 1\<rparr>"
              "c = Return r \<or> (\<exists>e. c = Throw e)"
proof (cases "returnValidation jp v (schemas_return s) False")
  case (Throw e)
  from assms have "c = Throw e" "bo' = bo" "rest = [EvReturnValidation v]"
    by (auto simp: create_finish_def Throw)
  then show thesis using Throw by (intro Fail [of e]) (simp_all add: return_stage_def)
next
  case (Return r)
  have rs: "return_stage False jp s v = Return r" by (simp add: return_stage_def Return)
  show thesis
  proof (cases "spyFn bo pa r (Suc (spyFnCount bo))")
    case (Throw e)
    from assms have "c = Throw e" "bo' = bo\<lparr>spyFnCount := spyFnCount bo + 1\<rparr>"
        "rest = [EvReturnValidation v, EvSpyFn pa r (spyFnCount bo + 1)] @ []"
      by (auto simp: create_finish_def Let_def Return Throw)
    then show thesis using rs by (intro Spied [of r "[]"]) simp_all
  next
    case spy: (Return u)
    show thesis
    proof (cases "instanceof_Promise u")
      case True
      from assms have "\<exists>e. c = Throw e" "bo' = bo\<lparr>spyFnCount := spyFnCount bo + 1\<rparr>"
          "rest = [EvReturnValidation v, EvSpyFn pa r (spyFnCount bo + 1)] @ [EvCatch u]"
        by (auto simp: create_finish_def Let_def Return spy True)
      then show thesis using rs by (intro Spied [of r "[EvCatch u]"]) simp_all
    next
      case False
      from assms have "c = Return r" "bo' = bo\<lparr>spyFnCount := spyFnCount bo + 1\<rparr>"
          "rest = [EvReturnValidation v, EvSpyFn pa r (spyFnCount bo + 1)] @ []"
        by (auto simp: create_finish_def Let_def Return spy False)
      then show thesis using rs by (intro Spied [of r "[]"]) simp_all
    qed
  qed
qed


lemma create_async_branch_cases [consumes 1, case_names HandlerFail ReturnFail Spied]:
  assumes "create_async_branch jp s bo pa p = (c, bo', rest)"
  obtains (HandlerFail) err e where "await p = Throw err" "rest = [EvOnErrorFn err pa]"
              "c = Throw e" "bo' = bo"
  | (ReturnFail) mid v e where
              "(mid = [] \<and> await p = Return v)
               \<or> (\<exists>err. mid = [EvOnErrorFn err pa] \<and> await p = Throw err
                      \<and> await_outcome (onErrorFn bo err pa) = Return v)"
              "return_stage False jp s v = Throw e" "rest = mid @ [EvReturnValidation v]"
              "c = Throw e" "bo' = bo"
  | (Spied) mid v r where
              "(mid = [] \<and> await p = Return v)
               \<or> (\<exists>err. mid = [EvOnErrorFn err pa] \<and> await p = Throw err
                      \<and> await_outcome (onErrorFn bo err pa) = Return v)"
              "return_stage False jp s v = Return r"
              "rest = mid @ [EvReturnValidation v, EvSpyFn pa r (spyFnCount bo + 1)]"
              "bo' = bo\<lparr>spyFnCount := spyFnCount bo + 1\<rparr>"
proof -
  have tail: thesis
    if rec: "(mid = [] \<and> await p = Return v)
              \<or> (\<exists>err. mid = [EvOnErrorFn err pa] \<and> await p = Throw err
                     \<and> await_outcome (onErrorFn bo err pa) = Return v)"
    and eq: "create_async_branch jp s bo pa p =
          (case returnValidation jp v (schemas_return s) False of
             Throw e \<Rightarrow> (Throw e, bo, mid @ [EvReturnValidation v])
           | Return ret \<Rightarrow>
               (let bo' = bo\<lparr>spyFnCount := spyFnCount bo + 1\<rparr> in
                (case await_outcome (spyFn bo' pa ret (spyFnCount bo')) of
                   Throw e \<Rightarrow>
                     (Throw e, bo',
                      mid @ [EvReturnValidation v, EvSpyFn pa ret (spyFnCount bo')])
                 | Return u \<Rightarrow>
                     (await ret, bo',
                      mid @ [EvReturnValidation v,
                            EvSpyFn pa ret (spyFnCount bo')]))))" for mid v
  proof (cases "returnValidation jp v (schemas_return s) False")
    case (Throw e)
    from assms eq have "c = Throw e" "bo' = bo" "rest = mid @ [EvReturnValidation v]"
      by (auto simp: Throw)
    then show thesis using rec Throw
      by (intro ReturnFail [of mid v e]) (simp_all add: return_stage_def)
  next
    case (Return r)
    from assms eq have "bo' = bo\<lparr>spyFnCount := spyFnCount bo + 1\<rparr>"
          "rest = mid @ [EvReturnValidation v, EvSpyFn pa r (spyFnCount bo + 1)]"
      by (auto simp: Return Let_def split: outcome.splits)
    then show thesis using rec Return
      by (intro Spied [of mid v r]) (simp_all add: return_stage_def)
  qed
  show thesis
  proof (cases "await p")
    case (Return v)
    show thesis
      by (rule tail [of "[]" v]) (simp_all add: create_async_branch_def Return)
  next
    case (Throw err)
    show thesis
    proof (cases "await_outcome (onErrorFn bo err pa)")
      case h: (Throw e)
      from assms have "c = Throw e" "bo' = bo" "rest = [EvOnErrorFn err pa]"
        by (auto simp: create_async_branch_def Throw h)
      then show thesis using Throw by (intro HandlerFail [of err e]) simp_all
    next
      case h: (Return v)
      show thesis
        by (rule tail [of "[EvOnErrorFn err pa]" v]) (simp_all add: create_async_branch_def Throw h)
    qed
  qed
qed


lemma create_call_cases [consumes 1, case_names ArgFail HandlerFail ReturnFail Spied]:
  assumes "create_call jp s bo xs = (c, bo', tr)"
  obtains (ArgFail) e tr0 where
      "validate_args jp False (schemas_args s) xs 0 [] = (Inl e, tr0)" "tr = tr0"
      "c = (if False then Return (VPromise (Throw e)) else Throw e)" "bo' = bo"
  | (HandlerFail) pa tr0 err post e where
      "validate_args jp False (schemas_args s) xs 0 [] = (Inr pa, tr0)"
      "await_outcome (execFn bo pa) = Throw err"
      "tr = tr0 @ [EvExecFn pa, EvOnErrorFn err pa] @ post"
      "\<forall>ev \<in> set post. \<exists>p. ev = EvCatch p" "fails_with c e" "bo' = bo"
  | (ReturnFail) pa tr0 mid v e where
      "validate_args jp False (schemas_args s) xs 0 [] = (Inr pa, tr0)"
      "(mid = [] \<and> await_outcome (execFn bo pa) = Return v)
       \<or> (\<exists>err. mid = [EvOnErrorFn err pa] \<and> await_outcome (execFn bo pa) = Throw err
              \<and> await_outcome (onErrorFn bo err pa) = Return v)"
      "return_stage False jp s v = Throw e"
      "tr = tr0 @ [EvExecFn pa] @ mid @ [EvReturnValidation v]" "fails_with c e" "bo' = bo"
  | (Spied) pa tr0 mid v r post where
      "validate_args jp False (schemas_args s) xs 0 [] = (Inr pa, tr0)"
      "(mid = [] \<and> await_outcome (execFn bo pa) = Return v)
       \<or> (\<exists>err. mid = [EvOnErrorFn err pa] \<and> await_outcome (execFn bo pa) = Throw err
              \<and> await_outcome (onErrorFn bo err pa) = Return v)"
      "return_stage False jp s v = Return r"
      "tr = tr0 @ [EvExecFn pa] @ mid
              @ [EvReturnValidation v, EvSpyFn pa r (spyFnCount bo + 1)] @ post"
      "\<forall>ev \<in> set post. \<exists>p. ev = EvCatch p"
      "bo' = bo\<lparr>spyFnCount := spyFnCount bo + 1\<rparr>"
proof -
  note A = ArgFail and H = HandlerFail and R = ReturnFail and S = Spied
  obtain r0 tr0 where Pair: "validate_args jp False (schemas_args s) xs 0 [] = (r0, tr0)"
    by (cases "validate_args jp False (schemas_args s) xs 0 []")
  show thesis
  proof (cases r0)
    case (Inl e)
    from assms have "c = Throw e" "bo' = bo" "tr = tr0"
      by (auto simp: create_call_def Pair Inl)
    then show thesis using Pair Inl by (intro A [of e tr0]) simp_all
  next
    case (Inr pa)
    have va: "validate_args jp False (schemas_args s) xs 0 [] = (Inr pa, tr0)"
      using Pair Inr by simp
    have fin: thesis
      if rec: "(mid = [] \<and> await_outcome (execFn bo pa) = Return v)
       \<or> (\<exists>err. mid = [EvOnErrorFn err pa] \<and> await_outcome (execFn bo pa) = Throw err
              \<and> await_outcome (onErrorFn bo err pa) = Return v)"
        and eq: "create_finish jp s bo pa v = (c, bo', rest)"
        and tr: "tr = tr0 @ [EvExecFn pa] @ mid @ rest" for mid v rest
      using eq
    proof (cases rule: create_finish_cases)
      case (Fail e)
      show thesis
        using va rec Fail tr by (intro R [of pa tr0 mid v e]) (simp_all add: fails_with_def)
    next
      case (Spied r post)
      show thesis
        using va rec Spied tr by (intro S [of pa tr0 mid v r post]) simp_all
    qed
    show thesis
    proof (cases "execFn bo pa")
      case (Return ret)
      show thesis
      proof (cases "instanceof_Promise ret")
        case True
        obtain c0 rest where ab: "create_async_branch jp s bo pa ret = (c0, bo', rest)"
           and c: "c = Return (VPromise c0)" and tr: "tr = tr0 @ [EvExecFn pa] @ rest"
          using assms by (auto simp: create_call_def Pair Inr Return True split: prod.splits)
        have aw: "await ret = await_outcome (execFn bo pa)" by (simp add: Return)
        from ab show thesis
        proof (cases rule: create_async_branch_cases)
          case (HandlerFail err e)
          show thesis
            using va HandlerFail c tr unfolding aw
            by (intro H [of pa tr0 err "[]" e]) (simp_all add: fails_with_def)
        next
          case (ReturnFail mid v e)
          show thesis
            using va ReturnFail c tr unfolding aw
            by (intro R [of pa tr0 mid v e]) (simp_all add: fails_with_def)
        next
          case (Spied mid v r)
          show thesis
            using va Spied c tr unfolding aw
            by (intro S [of pa tr0 mid v r "[]"]) simp_all
        qed
      next
        case False
        obtain rest where "create_finish jp s bo pa ret = (c, bo', rest)"
            and "tr = tr0 @ [EvExecFn pa] @ [] @ rest"
          using assms by (auto simp: create_call_def Pair Inr Return False split: prod.splits)
        moreover have "await_outcome (execFn bo pa) = Return ret"
          using False by (simp add: Return await_plain)
        ultimately show thesis by (intro fin [of "[]" ret rest]) simp_all
      qed
    next
      case (Throw err)
      have ex: "await_outcome (execFn bo pa) = Throw err" by (simp add: Throw)
      show thesis
      proof (cases "onErrorFn bo err pa")
        case h: (Throw e)
        from assms have "c = Throw e" "bo' = bo" "tr = tr0 @ [EvExecFn pa, EvOnErrorFn err pa] @ []"
          by (auto simp: create_call_def Pair Inr Throw h)
        then show thesis using va ex
          by (intro H [of pa tr0 err "[]" e]) (simp_all add: fails_with_def)
      next
        case h: (Return ret)
        show thesis
        proof (cases "instanceof_Promise ret")
          case True
          from assms have "c = Throw (ZodFnError
                ''onError handler function cannot return a promise in a synchronous context'')"
             "bo' = bo" "tr = tr0 @ [EvExecFn pa, EvOnErrorFn err pa] @ [EvCatch ret]"
            by (auto simp: create_call_def Pair Inr Throw h True)
          then show thesis using va ex
            by (intro H [of pa tr0 err "[EvCatch ret]" "ZodFnError
                ''onError handler function cannot return a promise in a synchronous context''"])
               (simp_all add: fails_with_def)
        next
          case False
          obtain rest where "create_finish jp s bo pa ret = (c, bo', rest)"
              and "tr = tr0 @ [EvExecFn pa] @ [EvOnErrorFn err pa] @ rest"
            using assms by (auto simp: create_call_def Pair Inr Throw h False split: prod.splits)
          moreover have "await_outcome (onErrorFn bo err pa) = Return ret"
            using False by (simp add: h await_plain)
          ultimately show thesis using ex by (intro fin [of "[EvOnErrorFn err pa]" ret rest]) simp_all
        qed
      qed
    qed
  qed
qed


lemma createAsync_call_cases [consumes 1, case_names ArgFail HandlerFail ReturnFail Spied]:
  assumes "createAsync_call jp s bo xs = (c, bo', tr)"
  obtains (ArgFail) e tr0 where
      "validate_args jp True (schemas_args s) xs 0 [] = (Inl e, tr0)" "tr = tr0"
      "c = (if True then Return (VPromise (Throw e)) else Throw e)" "bo' = bo"
  | (HandlerFail) pa tr0 err post e where
      "validate_args jp True (schemas_args s) xs 0 [] = (Inr pa, tr0)"
      "await_outcome (execFn bo pa) = Throw err"
      "tr = tr0 @ [EvExecFn pa, EvOnErrorFn err pa] @ post"
      "\<forall>ev \<in> set post. \<exists>p. ev = EvCatch p" "fails_with c e" "bo' = bo"
  | (ReturnFail) pa tr0 mid v e where
      "validate_args jp True (schemas_args s) xs 0 [] = (Inr pa, tr0)"
      "(mid = [] \<and> await_outcome (execFn bo pa) = Return v)
       \<or> (\<exists>err. mid = [EvOnErrorFn err pa] \<and> await_outcome (execFn bo pa) = Throw err
              \<and> await_outcome (onErrorFn bo err pa) = Return v)"
      "return_stage True jp s v = Throw e"
      "tr = tr0 @ [EvExecFn pa] @ mid @ [EvReturnValidation v]" "fails_with c e" "bo' = bo"
  | (Spied) pa tr0 mid v r post where
      "validate_args jp True (schemas_args s) xs 0 [] = (Inr pa, tr0)"
      "(mid = [] \<and> await_outcome (execFn bo pa) = Return v)
       \<or> (\<exists>err. mid = [EvOnErrorFn err pa] \<and> await_outcome (execFn bo pa) = Throw err
              \<and> await_outcome (onErrorFn bo err pa) = Return v)"
      "return_stage True jp s v = Return r"
      "tr = tr0 @ [EvExecFn pa] @ mid
              @ [EvReturnValidation v, EvSpyFn pa r (spyFnCount bo + 1)] @ post"
      "\<forall>ev \<in> set post. \<exists>p. ev = EvCatch p"
      "bo' = bo\<lparr>spyFnCount := spyFnCount bo + 1\<rparr>"
proof -
  note A = ArgFail and H = HandlerFail and R = ReturnFail and S = Spied
  obtain c0 where body: "createAsync_body jp s bo xs = (c0, bo', tr)"
      and c: "c = Return (VPromise c0)"
    using assms by (auto simp: createAsync_call_def split: prod.splits)
  obtain r0 tr0 where Pair: "validate_args jp True (schemas_args s) xs 0 [] = (r0, tr0)"
    by (cases "validate_args jp True (schemas_args s) xs 0 []")
  show thesis
  proof (cases r0)
    case (Inl e)
    from body have "c0 = Throw e" "bo' = bo" "tr = tr0"
      by (auto simp: createAsync_body_def Pair Inl)
    then show thesis using Pair Inl c by (intro A [of e tr0]) simp_all
  next
    case (Inr pa)
    have va: "validate_args jp True (schemas_args s) xs 0 [] = (Inr pa, tr0)"
      using Pair Inr by simp
    have tail: thesis
      if rec: "(mid = [] \<and> await_outcome (execFn bo pa) = Return v)
       \<or> (\<exists>err. mid = [EvOnErrorFn err pa] \<and> await_outcome (execFn bo pa) = Throw err
              \<and> await_outcome (onErrorFn bo err pa) = Return v)"
      and eq: "createAsync_body jp s bo xs =
          (case await_outcome (returnValidation jp v (schemas_return s) True) of
                  Throw e \<Rightarrow> (Throw e, bo, tr0 @ (EvExecFn pa # mid) @ [EvReturnValidation v])
                | Return ret \<Rightarrow>
                    (let bo' = bo\<lparr>spyFnCount := spyFnCount bo + 1\<rparr> in
                     (case await_outcome (spyFn bo' pa ret (spyFnCount bo')) of
                        Throw e \<Rightarrow>
                          (Throw e, bo',
                           tr0 @ (EvExecFn pa # mid) @ [EvReturnValidation v,
                                       EvSpyFn pa ret (spyFnCount bo')])
                      | Return u \<Rightarrow>
                          (await ret, bo',
                           tr0 @ (EvExecFn pa # mid) @ [EvReturnValidation v,
                                       EvSpyFn pa ret (spyFnCount bo')]))))" for mid v
    proof (cases "await_outcome (returnValidation jp v (schemas_return s) True)")
      case (Throw e)
      from body eq have "c0 = Throw e" "bo' = bo"
           "tr = tr0 @ [EvExecFn pa] @ mid @ [EvReturnValidation v]"
        by (auto simp: Throw)
      then show thesis using va rec Throw c
        by (intro R [of pa tr0 mid v e]) (simp_all add: return_stage_def fails_with_def)
    next
      case (Return r)
      from body eq have "bo' = bo\<lparr>spyFnCount := spyFnCount bo + 1\<rparr>"
           "tr = tr0 @ [EvExecFn pa] @ mid
                   @ [EvReturnValidation v, EvSpyFn pa r (spyFnCount bo + 1)] @ []"
        by (auto simp: Return Let_def split: outcome.splits)
      then show thesis using va rec Return
        by (intro S [of pa tr0 mid v r "[]"]) (simp_all add: return_stage_def)
    qed
    show thesis
    proof (cases "await_outcome (execFn bo pa)")
      case (Return v)
      show thesis
        by (rule tail [of "[]" v]) (simp_all add: createAsync_body_def Pair Inr Return)
    next
      case (Throw err)
      show thesis
      proof (cases "await_outcome (onErrorFn bo err pa)")
        case h: (Throw e)
        from body have "c0 = Throw e" "bo' = bo"
            "tr = tr0 @ [EvExecFn pa, EvOnErrorFn err pa] @ []"
          by (auto simp: createAsync_body_def Pair Inr Throw h)
        then show thesis using va Throw c
          by (intro H [of pa tr0 err "[]" e]) (simp_all add: fails_with_def)
      next
        case h: (Return v)
        show thesis
          by (rule tail [of "[EvOnErrorFn err pa]" v])
             (simp_all add: createAsync_body_def Pair Inr Throw h)
      qed
    qed
  qed
qed

lemma run_cases [consumes 1, case_names ArgFail HandlerFail ReturnFail Spied]:
  assumes "run async jp s bo xs = (c, bo', tr)"
  obtains (ArgFail) e tr0 where
      "validate_args jp async (schemas_args s) xs 0 [] = (Inl e, tr0)" "tr = tr0"
      "c = (if async then Return (VPromise (Throw e)) else Throw e)" "bo' = bo"
  | (HandlerFail) pa tr0 err post e where
      "validate_args jp async (schemas_args s) xs 0 [] = (Inr pa, tr0)"
      "await_outcome (execFn bo pa) = Throw err"
      "tr = tr0 @ [EvExecFn pa, EvOnErrorFn err pa] @ post"
      "\<forall>ev \<in> set post. \<exists>p. ev = EvCatch p" "fails_with c e" "bo' = bo"
  | (ReturnFail) pa tr0 mid v e where
      "validate_args jp async (schemas_args s) xs 0 [] = (Inr pa, tr0)"
      "(mid = [] \<and> await_outcome (execFn bo pa) = Return v)
       \<or> (\<exists>err. mid = [EvOnErrorFn err pa] \<and> await_outcome (execFn bo pa) = Throw err
              \<and> await_outcome (onErrorFn bo err pa) = Return v)"
      "return_stage async jp s v = Throw e"
      "tr = tr0 @ [EvExecFn pa] @ mid @ [EvReturnValidation v]" "fails_with c e" "bo' = bo"
  | (Spied) pa tr0 mid v r post where
      "validate_args jp async (schemas_args s) xs 0 [] = (Inr pa, tr0)"
      "(mid = [] \<and> await_outcome (execFn bo pa) = Return v)
       \<or> (\<exists>err. mid = [EvOnErrorFn err pa] \<and> await_outcome (execFn bo pa) = Throw err
              \<and> await_outcome (onErrorFn bo err pa) = Return v)"
      "return_stage async jp s v = Return r"
      "tr = tr0 @ [EvExecFn pa] @ mid
              @ [EvReturnValidation v, EvSpyFn pa r (spyFnCount bo + 1)] @ post"
      "\<forall>ev \<in> set post. \<exists>p. ev = EvCatch p"
      "bo' = bo\<lparr>spyFnCount := spyFnCount bo + 1\<rparr>"
proof -
  note A = ArgFail and H = HandlerFail and R = ReturnFail and S = Spied
  show thesis
  proof (cases async)
  case True
  with assms have "createAsync_call jp s bo xs = (c, bo', tr)" by (simp add: run_def)
  then show thesis
  proof (cases rule: createAsync_call_cases)
    case (ArgFail e tr0)
    then show thesis using True by (intro A [of e tr0]) simp_all
  next
    case (HandlerFail pa tr0 err post e)
    then show thesis using True by (intro H [of pa tr0 err post e]) simp_all
  next
    case (ReturnFail pa tr0 mid v e)
    then show thesis using True by (intro R [of pa tr0 mid v e]) simp_all
  next
    case (Spied pa tr0 mid v r post)
    then show thesis using True by (intro S [of pa tr0 mid v r post]) simp_all
  qed
  next
  case False
  with assms have "create_call jp s bo xs = (c, bo', tr)" by (simp add: run_def)
  then show thesis
  proof (cases rule: create_call_cases)
    case (ArgFail e tr0)
    then show thesis using False by (intro A [of e tr0]) simp_all
  next
    case (HandlerFail pa tr0 err post e)
    then show thesis using False by (intro H [of pa tr0 err post e]) simp_all
  next
    case (ReturnFail pa tr0 mid v e)
    then show thesis using False by (intro R [of pa tr0 mid v e]) simp_all
  next
    case (Spied pa tr0 mid v r post)
    then show thesis using False by (intro S [of pa tr0 mid v r post]) simp_all
  qed
  qed
qed

lemma validate_args_events:
  "validate_args jp async ss xs i pa = (r, tr) \<Longrightarrow> ev \<in> set tr \<Longrightarrow>
     \<exists>k. ev = EvArgValidation (Suc k) (xs ! (k - i)) \<and> i \<le> k \<and> k < i + length xs \<and> k < length ss"
proof (induction xs arbitrary: i pa r tr)
  case Nil
  then show ?case by simp
next
  case (Cons a rest)
  have skip: ?case if rec: "validate_args jp async ss rest (i + 1) pa' = (r', tr')"
      and ev: "ev \<in> set tr'" for pa' r' tr'
  proof -
    from Cons.IH [OF rec ev] obtain k where
      k: "ev = EvArgValidation (Suc k) (rest ! (k - (i + 1)))" "i + 1 \<le> k"
         "k < i + 1 + length rest" "k < length ss"
      by blast
    then have "(a # rest) ! (k - i) = rest ! (k - (i + 1))"
      by (simp add: nth_Cons')
    with k show ?thesis by auto
  qed
  show ?case
  proof (cases "if i < length ss then ss ! i else CUndefined")
    case (CObj sc)
    then have il: "i < length ss" by (auto split: if_splits)
    show ?thesis
    proof (cases "if async then await_outcome (argValidation jp a (i + 1) (CObj sc) True)
                 else argValidation jp a (i + 1) (CObj sc) False")
      case (Throw e)
      with CObj Cons.prems il show ?thesis by (auto split: if_splits)
    next
      case (Return v)
      obtain r' tr' where rec: "validate_args jp async ss rest (i + 1) (pa @ [v]) = (r', tr')"
        by (cases "validate_args jp async ss rest (i + 1) (pa @ [v])")
      with CObj Return Cons.prems have tr: "tr = EvArgValidation (i + 1) a # tr'"
        by (auto split: if_splits)
      show ?thesis
      proof (cases "ev = EvArgValidation (i + 1) a")
        case True
        with il show ?thesis by auto
      next
        case False
        with tr Cons.prems have "ev \<in> set tr'" by simp
        with rec show ?thesis by (rule skip)
      qed
    qed
  next
    case CUndefined
    with Cons.prems have "validate_args jp async ss rest (i + 1) (pa @ [a]) = (r, tr)"
      by (auto split: if_splits)
    then show ?thesis using Cons.prems(2) by (rule skip)
  next
    case CNull
    with Cons.prems have "validate_args jp async ss rest (i + 1) (pa @ [a]) = (r, tr)"
      by (auto split: if_splits)
    then show ?thesis using Cons.prems(2) by (rule skip)
  qed
qed

lemma validate_args_only_arg_events:
  assumes "validate_args jp async ss xs i pa = (r, tr)"
  shows "EvOnErrorFn err a \<notin> set tr" and "EvReturnValidation v \<notin> set tr"
    and "EvSpyFn a w k \<notin> set tr" and "EvExecFn a \<notin> set tr" and "EvCatch v \<notin> set tr"
  using validate_args_events [OF assms] by blast+

text \<open>
  C1. In every call of a closure made by \<^verbatim>\<open>create\<close> or \<^verbatim>\<open>createAsync\<close>: when the
  validation of an argument fails, the call fails with that error (thrown by \<^verbatim>\<open>create\<close>,
  the rejection of the promise of \<^verbatim>\<open>createAsync\<close>), only argument validations have run and
  the error handler is not called; when return validation fails on the value it is
  given, the error reaches the caller (thrown, or as the rejection of the returned
  promise) and return validation is the last stage of the call; and whenever the error
  handler is called, it is called with the error the current implementation threw or
  rejected with, on the arguments the implementation was called with.
\<close>

theorem validation_failures_bypass_onError:
  assumes "run async jp s bo call_args = (c, bo', tr)"
  shows "(\<forall>e tr0. validate_args jp async (schemas_args s) call_args 0 [] = (Inl e, tr0) \<longrightarrow>
            c = (if async then Return (VPromise (Throw e)) else Throw e)
            \<and> tr = tr0 \<and> (\<forall>err a. EvOnErrorFn err a \<notin> set tr))
       \<and> (\<forall>v e. EvReturnValidation v \<in> set tr \<and> return_stage async jp s v = Throw e \<longrightarrow>
            fails_with c e \<and> (\<exists>pre. tr = pre @ [EvReturnValidation v]))
       \<and> (\<forall>err a. EvOnErrorFn err a \<in> set tr \<longrightarrow> await_outcome (execFn bo a) = Throw err)"
  using assms
proof (cases rule: run_cases)
  case (ArgFail e tr0)
  then show ?thesis
    using validate_args_only_arg_events [of jp async "schemas_args s" call_args 0 "[]" "Inl e" tr0]
    by auto
next
  case (HandlerFail pa tr0 err post e)
  then show ?thesis
    using validate_args_only_arg_events [of jp async "schemas_args s" call_args 0 "[]" "Inr pa" tr0]
    by auto
next
  case (ReturnFail pa tr0 mid v e)
  then show ?thesis
    using validate_args_only_arg_events [of jp async "schemas_args s" call_args 0 "[]" "Inr pa" tr0]
    by auto
next
  case (Spied pa tr0 mid v r post)
  then show ?thesis
    using validate_args_only_arg_events [of jp async "schemas_args s" call_args 0 "[]" "Inr pa" tr0]
    by auto
qed


lemma run_after_recovery_async:
  assumes va: "validate_args jp True (schemas_args s) xs 0 [] = (Inr pa, tr0)"
    and rec: "recovery_stage True bo pa = Return v"
  shows "run True jp s bo xs =
     (case return_stage True jp s v of
        Throw e \<Rightarrow>
          (if in_promise True bo pa then Return (VPromise (Throw e)) else Throw e, bo,
           tr0 @ EvExecFn pa # handler_stages bo pa @ [EvReturnValidation v])
      | Return r \<Rightarrow>
          (spy_stage_outcome (in_promise True bo pa) (spyFn bo pa r (spyFnCount bo + 1)) r,
           bo\<lparr>spyFnCount := spyFnCount bo + 1\<rparr>,
           tr0 @ EvExecFn pa # handler_stages bo pa
             @ [EvReturnValidation v, EvSpyFn pa r (spyFnCount bo + 1)]
             @ (if in_promise True bo pa then []
                else (case spyFn bo pa r (spyFnCount bo + 1) of
                        Return u \<Rightarrow> if instanceof_Promise u then [EvCatch u] else []
                      | Throw e \<Rightarrow> []))))"
proof -
  have ip: "in_promise True bo pa" by (simp add: in_promise_def)
  show ?thesis
  proof (cases "await_outcome (execFn bo pa)")
    case ex: (Return x)
    with rec ip have x: "x = v" by (simp add: recovery_stage_def)
    show ?thesis
    proof (cases "await_outcome (returnValidation jp v (schemas_return s) True)")
      case rv: (Throw e)
      show ?thesis
        by (simp add: run_def createAsync_call_def createAsync_body_def va ex x rv
            return_stage_def ip handler_stages_def)
    next
      case rv: (Return r)
      show ?thesis
        by (cases "await_outcome (spyFn bo pa r (Suc (spyFnCount bo)))")
           (simp_all add: run_def createAsync_call_def createAsync_body_def va ex x rv
            return_stage_def ip handler_stages_def spy_stage_outcome_def Let_def)
    qed
  next
    case ex: (Throw err)
    with rec ip have h: "await_outcome (onErrorFn bo err pa) = Return v"
      by (simp add: recovery_stage_def)
    show ?thesis
    proof (cases "await_outcome (returnValidation jp v (schemas_return s) True)")
      case rv: (Throw e)
      show ?thesis
        by (simp add: run_def createAsync_call_def createAsync_body_def va ex h rv
            return_stage_def ip handler_stages_def)
    next
      case rv: (Return r)
      show ?thesis
        by (cases "await_outcome (spyFn bo pa r (Suc (spyFnCount bo)))")
           (simp_all add: run_def createAsync_call_def createAsync_body_def va ex h rv
            return_stage_def ip handler_stages_def spy_stage_outcome_def Let_def)
    qed
  qed
qed

lemma run_after_recovery_sync:
  assumes va: "validate_args jp False (schemas_args s) xs 0 [] = (Inr pa, tr0)"
    and rec: "recovery_stage False bo pa = Return v"
  shows "run False jp s bo xs =
     (case return_stage False jp s v of
        Throw e \<Rightarrow>
          (if in_promise False bo pa then Return (VPromise (Throw e)) else Throw e, bo,
           tr0 @ EvExecFn pa # handler_stages bo pa @ [EvReturnValidation v])
      | Return r \<Rightarrow>
          (spy_stage_outcome (in_promise False bo pa) (spyFn bo pa r (spyFnCount bo + 1)) r,
           bo\<lparr>spyFnCount := spyFnCount bo + 1\<rparr>,
           tr0 @ EvExecFn pa # handler_stages bo pa
             @ [EvReturnValidation v, EvSpyFn pa r (spyFnCount bo + 1)]
             @ (if in_promise False bo pa then []
                else (case spyFn bo pa r (spyFnCount bo + 1) of
                        Return u \<Rightarrow> if instanceof_Promise u then [EvCatch u] else []
                      | Throw e \<Rightarrow> []))))"
proof -
  have tail: ?thesis
    if np: "\<not> in_promise False bo pa"
      and eq: "run False jp s bo xs =
         (case create_finish jp s bo pa v of
            (c, bo', tr') \<Rightarrow> (c, bo', tr0 @ EvExecFn pa # handler_stages bo pa @ tr'))"
  proof (cases "returnValidation jp v (schemas_return s) False")
    case rv: (Throw e)
    show ?thesis
      by (simp add: eq create_finish_def rv return_stage_def np)
  next
    case rv: (Return r)
    show ?thesis
    proof (cases "spyFn bo pa r (Suc (spyFnCount bo))")
      case sp: (Throw e)
      show ?thesis
        by (simp add: eq create_finish_def rv return_stage_def np sp
            spy_stage_outcome_def Let_def)
    next
      case sp: (Return u)
      show ?thesis
        by (cases "instanceof_Promise u")
           (simp_all add: eq create_finish_def rv return_stage_def np sp
            spy_stage_outcome_def Let_def)
    qed
  qed
  show ?thesis
  proof (cases "execFn bo pa")
    case ex: (Return ret)
    show ?thesis
    proof (cases "instanceof_Promise ret")
      case p: True
      have ip: "in_promise False bo pa" by (simp add: in_promise_def ex p)
      show ?thesis
      proof (cases "await ret")
        case aw: (Return x)
        with rec ip have x: "x = v" by (simp add: recovery_stage_def ex)
        show ?thesis
        proof (cases "returnValidation jp v (schemas_return s) False")
          case rv: (Throw e)
          show ?thesis
            by (simp add: run_def create_call_def create_async_branch_def va ex p aw x rv
                return_stage_def ip handler_stages_def)
        next
          case rv: (Return r)
          show ?thesis
            by (cases "await_outcome (spyFn bo pa r (Suc (spyFnCount bo)))")
               (simp_all add: run_def create_call_def create_async_branch_def va ex p aw x
                rv return_stage_def ip handler_stages_def spy_stage_outcome_def Let_def)
        qed
      next
        case aw: (Throw err)
        with rec ip have h: "await_outcome (onErrorFn bo err pa) = Return v"
          by (simp add: recovery_stage_def ex)
        show ?thesis
        proof (cases "returnValidation jp v (schemas_return s) False")
          case rv: (Throw e)
          show ?thesis
            by (simp add: run_def create_call_def create_async_branch_def va ex p aw h rv
                return_stage_def ip handler_stages_def)
        next
          case rv: (Return r)
          show ?thesis
            by (cases "await_outcome (spyFn bo pa r (Suc (spyFnCount bo)))")
               (simp_all add: run_def create_call_def create_async_branch_def va ex p aw h
                rv return_stage_def ip handler_stages_def spy_stage_outcome_def Let_def)
        qed
      qed
    next
      case p: False
      have np: "\<not> in_promise False bo pa" by (simp add: in_promise_def ex p)
      with rec have v: "ret = v" by (simp add: recovery_stage_def ex)
      show ?thesis
        by (rule tail [OF np])
           (simp add: run_def create_call_def va ex p v [symmetric] handler_stages_def
              await_plain split: prod.splits)
    qed
  next
    case ex: (Throw err)
    have np: "\<not> in_promise False bo pa" by (simp add: in_promise_def ex)
    show ?thesis
    proof (cases "onErrorFn bo err pa")
      case h: (Throw e)
      with rec np show ?thesis by (simp add: recovery_stage_def ex)
    next
      case h: (Return u)
      show ?thesis
      proof (cases "instanceof_Promise u")
        case True
        with rec np h show ?thesis by (simp add: recovery_stage_def ex)
      next
        case p: False
        with rec np h have v: "u = v" by (simp add: recovery_stage_def ex)
        show ?thesis
          by (rule tail [OF np])
             (simp add: run_def create_call_def va ex h p v [symmetric] handler_stages_def
                split: prod.splits)
      qed
    qed
  qed
qed

lemma run_after_recovery:
  assumes va: "validate_args jp async (schemas_args s) xs 0 [] = (Inr pa, tr0)"
    and rec: "recovery_stage async bo pa = Return v"
  shows "run async jp s bo xs =
     (case return_stage async jp s v of
        Throw e \<Rightarrow>
          (if in_promise async bo pa then Return (VPromise (Throw e)) else Throw e, bo,
           tr0 @ EvExecFn pa # handler_stages bo pa @ [EvReturnValidation v])
      | Return r \<Rightarrow>
          (spy_stage_outcome (in_promise async bo pa) (spyFn bo pa r (spyFnCount bo + 1)) r,
           bo\<lparr>spyFnCount := spyFnCount bo + 1\<rparr>,
           tr0 @ EvExecFn pa # handler_stages bo pa
             @ [EvReturnValidation v, EvSpyFn pa r (spyFnCount bo + 1)]
             @ (if in_promise async bo pa then []
                else (case spyFn bo pa r (spyFnCount bo + 1) of
                        Return u \<Rightarrow> if instanceof_Promise u then [EvCatch u] else []
                      | Throw e \<Rightarrow> []))))"
proof (cases async)
  case True
  hence a: "async = True" by simp
  show ?thesis using assms unfolding a by (rule run_after_recovery_async)
next
  case False
  hence a: "async = False" by simp
  show ?thesis using assms unfolding a by (rule run_after_recovery_sync)
qed

lemma run_args_fail:
  assumes "validate_args jp async (schemas_args s) xs 0 [] = (Inl e, tr0)"
  shows "run async jp s bo xs =
           (if async then Return (VPromise (Throw e)) else Throw e, bo, tr0)"
proof (cases async)
  case True
  hence a: "async = True" by simp
  show ?thesis using assms unfolding a
    by (simp add: run_def createAsync_call_def createAsync_body_def)
next
  case False
  hence a: "async = False" by simp
  show ?thesis using assms unfolding a
    by (simp add: run_def create_call_def)
qed

lemma run_recovery_fails_async:
  assumes va: "validate_args jp True (schemas_args s) xs 0 [] = (Inr pa, tr0)"
    and rec: "recovery_stage True bo pa = Throw e"
  shows "fst (run True jp s bo xs) =
           (if in_promise True bo pa then Return (VPromise (Throw e)) else Throw e)
         \<and> fst (snd (run True jp s bo xs)) = bo"
proof (cases "await_outcome (execFn bo pa)")
  case ex: (Return x)
  with rec show ?thesis by (simp add: recovery_stage_def in_promise_def)
next
  case ex: (Throw err)
  with rec have h: "await_outcome (onErrorFn bo err pa) = Throw e"
    by (simp add: recovery_stage_def in_promise_def)
  show ?thesis
    by (simp add: run_def createAsync_call_def createAsync_body_def va ex h in_promise_def)
qed

lemma run_recovery_fails_sync:
  assumes va: "validate_args jp False (schemas_args s) xs 0 [] = (Inr pa, tr0)"
    and rec: "recovery_stage False bo pa = Throw e"
  shows "fst (run False jp s bo xs) =
           (if in_promise False bo pa then Return (VPromise (Throw e)) else Throw e)
         \<and> fst (snd (run False jp s bo xs)) = bo"
proof (cases "execFn bo pa")
  case ex: (Return ret)
  show ?thesis
  proof (cases "instanceof_Promise ret")
    case p: True
    have ip: "in_promise False bo pa" by (simp add: in_promise_def ex p)
    show ?thesis
    proof (cases "await ret")
      case aw: (Return x)
      with rec ip show ?thesis by (simp add: recovery_stage_def ex)
    next
      case aw: (Throw err)
      with rec ip have h: "await_outcome (onErrorFn bo err pa) = Throw e"
        by (simp add: recovery_stage_def ex)
      show ?thesis
        by (simp add: run_def create_call_def create_async_branch_def va ex p aw h ip)
    qed
  next
    case p: False
    have np: "\<not> in_promise False bo pa" by (simp add: in_promise_def ex p)
    with rec show ?thesis by (simp add: recovery_stage_def ex)
  qed
next
  case ex: (Throw err)
  have np: "\<not> in_promise False bo pa" by (simp add: in_promise_def ex)
  show ?thesis
  proof (cases "onErrorFn bo err pa")
    case h: (Throw e')
    with rec np have "e' = e" by (simp add: recovery_stage_def ex)
    then show ?thesis by (simp add: run_def create_call_def va ex h np)
  next
    case h: (Return u)
    show ?thesis
    proof (cases "instanceof_Promise u")
      case p: True
      with rec np h have "e = ZodFnError
          ''onError handler function cannot return a promise in a synchronous context''"
        by (simp add: recovery_stage_def ex)
      then show ?thesis by (simp add: run_def create_call_def va ex h np p)
    next
      case p: False
      with rec np h show ?thesis by (simp add: recovery_stage_def ex)
    qed
  qed
qed

lemma run_recovery_fails:
  assumes va: "validate_args jp async (schemas_args s) xs 0 [] = (Inr pa, tr0)"
    and rec: "recovery_stage async bo pa = Throw e"
  shows "fst (run async jp s bo xs) =
           (if in_promise async bo pa then Return (VPromise (Throw e)) else Throw e)
         \<and> fst (snd (run async jp s bo xs)) = bo"
proof (cases async)
  case True
  hence a: "async = True" by simp
  show ?thesis using assms unfolding a by (rule run_recovery_fails_async)
next
  case False
  hence a: "async = False" by simp
  show ?thesis using assms unfolding a by (rule run_recovery_fails_sync)
qed

lemma recovery_stage_value:
  assumes "recovery_stage async bo pa = Return v"
  shows "await_outcome (execFn bo pa) = Return v
         \<or> (\<exists>err. await_outcome (execFn bo pa) = Throw err
                \<and> await_outcome (onErrorFn bo err pa) = Return v)"
proof (cases "in_promise async bo pa")
  case True
  with assms show ?thesis
    by (cases "await_outcome (execFn bo pa)") (simp_all add: recovery_stage_def)
next
  case np: False
  show ?thesis
  proof (cases "execFn bo pa")
    case ex: (Return x)
    with np have "\<not> instanceof_Promise x" by (simp add: in_promise_def)
    with assms np ex show ?thesis by (simp add: recovery_stage_def await_plain)
  next
    case ex: (Throw err)
    show ?thesis
    proof (cases "onErrorFn bo err pa")
      case (Throw e)
      with assms np ex show ?thesis by (simp add: recovery_stage_def)
    next
      case h: (Return u)
      with assms np ex show ?thesis
        by (cases "instanceof_Promise u") (simp_all add: recovery_stage_def await_plain)
    qed
  qed
qed

text \<open>
  C3. In every call of a closure made by \<^verbatim>\<open>create\<close> (with a synchronous or an
  asynchronous implementation) or by \<^verbatim>\<open>createAsync\<close> whose arguments pass validation to
  \<open>pa\<close>: when the implementation, or the error handler after it, yields \<open>v\<close> and return
  validation turns \<open>v\<close> into \<open>r\<close>, the completion of the call is the one that the
  spy's call on \<open>pa\<close>, \<open>r\<close> and the incremented counter determines (an error of the spy
  is the error of the call), and the stages are the implementation, the handler when
  it is called, return validation of \<open>v\<close>, then the spy; when return validation of \<open>v\<close>
  fails, the call fails with that error, the options are unchanged and no function of
  the spy enters the result; when the implementation and the handler fail, the call
  fails with their error and the options are unchanged. The value \<open>v\<close> is the value of
  the implementation, or the value the handler produced from its error.
\<close>

theorem spy_applied_to_validated_result:
  assumes "validate_args jp async (schemas_args s) call_args 0 [] = (Inr pa, tr0)"
  shows "(\<forall>v r. recovery_stage async bo pa = Return v \<and> return_stage async jp s v = Return r \<longrightarrow>
            fst (run async jp s bo call_args) =
              spy_stage_outcome (in_promise async bo pa) (spyFn bo pa r (spyFnCount bo + 1)) r
            \<and> fst (snd (run async jp s bo call_args)) = bo\<lparr>spyFnCount := spyFnCount bo + 1\<rparr>
            \<and> (\<exists>post. snd (snd (run async jp s bo call_args)) =
                  tr0 @ EvExecFn pa # handler_stages bo pa
                    @ [EvReturnValidation v, EvSpyFn pa r (spyFnCount bo + 1)] @ post)
            \<and> (\<forall>e. spyFn bo pa r (spyFnCount bo + 1) = Throw e \<longrightarrow>
                  fails_with (fst (run async jp s bo call_args)) e))
       \<and> (\<forall>v e. recovery_stage async bo pa = Return v \<and> return_stage async jp s v = Throw e \<longrightarrow>
            run async jp s bo call_args =
              (if in_promise async bo pa then Return (VPromise (Throw e)) else Throw e, bo,
               tr0 @ EvExecFn pa # handler_stages bo pa @ [EvReturnValidation v]))
       \<and> (\<forall>e. recovery_stage async bo pa = Throw e \<longrightarrow>
            fst (run async jp s bo call_args) =
              (if in_promise async bo pa then Return (VPromise (Throw e)) else Throw e)
            \<and> fst (snd (run async jp s bo call_args)) = bo)
       \<and> (\<forall>v. recovery_stage async bo pa = Return v \<longrightarrow>
            await_outcome (execFn bo pa) = Return v
            \<or> (\<exists>err. await_outcome (execFn bo pa) = Throw err
                   \<and> await_outcome (onErrorFn bo err pa) = Return v))"
proof -
  let ?R = "run async jp s bo call_args"
  let ?k = "spyFnCount bo + 1"
  have 1: "fst ?R = spy_stage_outcome (in_promise async bo pa) (spyFn bo pa r ?k) r
            \<and> fst (snd ?R) = bo\<lparr>spyFnCount := ?k\<rparr>
            \<and> (\<exists>post. snd (snd ?R) =
                  tr0 @ EvExecFn pa # handler_stages bo pa
                    @ [EvReturnValidation v, EvSpyFn pa r ?k] @ post)
            \<and> (\<forall>e. spyFn bo pa r ?k = Throw e \<longrightarrow> fails_with (fst ?R) e)"
    if rec: "recovery_stage async bo pa = Return v" and rs: "return_stage async jp s v = Return r"
    for v r
  proof -
    note eq = run_after_recovery [OF assms rec]
    have a: "fst ?R = spy_stage_outcome (in_promise async bo pa) (spyFn bo pa r ?k) r"
      by (simp add: eq rs)
    have b: "fst (snd ?R) = bo\<lparr>spyFnCount := ?k\<rparr>"
      by (simp add: eq rs)
    have c: "\<exists>post. snd (snd ?R) =
                  tr0 @ EvExecFn pa # handler_stages bo pa
                    @ [EvReturnValidation v, EvSpyFn pa r ?k] @ post"
      by (simp add: eq rs)
    have d: "\<forall>e. spyFn bo pa r ?k = Throw e \<longrightarrow> fails_with (fst ?R) e"
      unfolding a by (simp add: spy_stage_outcome_def fails_with_def)
    from a b c d show ?thesis by (intro conjI)
  qed
  have 2: "?R = (if in_promise async bo pa then Return (VPromise (Throw e)) else Throw e, bo,
               tr0 @ EvExecFn pa # handler_stages bo pa @ [EvReturnValidation v])"
    if rec: "recovery_stage async bo pa = Return v" and rs: "return_stage async jp s v = Throw e"
    for v e
    by (simp add: run_after_recovery [OF assms rec] rs)
  have 3: "fst ?R = (if in_promise async bo pa then Return (VPromise (Throw e)) else Throw e)
            \<and> fst (snd ?R) = bo"
    if "recovery_stage async bo pa = Throw e" for e
    using run_recovery_fails [OF assms that] .
  have 4: "await_outcome (execFn bo pa) = Return v
            \<or> (\<exists>err. await_outcome (execFn bo pa) = Throw err
                   \<and> await_outcome (onErrorFn bo err pa) = Return v)"
    if "recovery_stage async bo pa = Return v" for v
    using recovery_stage_value [OF that] .
  from 1 2 3 4 show ?thesis by blast
qed

lemmas ex_defs = ex_schemas_reject_arg_def ex_schemas_reject_return_def ex_schemas_accept_def
  ex_fn_def ex_throwing_fn_def ex_recover_def ex_async_recover_def ex_options_def
  ex_accept_def ex_reject_def no_op_spy_def rethrow_def

lemmas pipeline_defs = run_def create_call_def create_finish_def create_async_branch_def
  createAsync_call_def createAsync_body_def argValidation_def returnValidation_def
  return_stage_def Let_def

theorem validation_failures_bypass_onError_witness:
  "validate_args ex_jp False (schemas_args ex_schemas_reject_arg) [VNum 5] 0 [] =
     (Inl (argValidation_throwError ex_jp 1 ''ISSUES''), [EvArgValidation 1 (VNum 5)])
   \<and> run False ex_jp ex_schemas_reject_arg (ex_options ex_fn rethrow) [VNum 5] =
       (Throw (argValidation_throwError ex_jp 1 ''ISSUES''), ex_options ex_fn rethrow,
        [EvArgValidation 1 (VNum 5)])
   \<and> snd (snd (run True ex_jp ex_schemas_reject_return (ex_options ex_throwing_fn ex_recover)
                   [VNum 5])) =
       [EvArgValidation 1 (VNum 5), EvExecFn [VNum 5], EvOnErrorFn ex_boom [VNum 5],
        EvReturnValidation (VNum 0)]
   \<and> return_stage True ex_jp ex_schemas_reject_return (VNum 0) =
       Throw (returnValidation_throwError ex_jp ''ISSUES'')
   \<and> fails_with (fst (run True ex_jp ex_schemas_reject_return
                          (ex_options ex_throwing_fn ex_recover) [VNum 5]))
                  (returnValidation_throwError ex_jp ''ISSUES'')
   \<and> await_outcome (execFn (ex_options ex_throwing_fn ex_recover) [VNum 5]) = Throw ex_boom"
proof -
  let ?A = "run False ex_jp ex_schemas_reject_arg (ex_options ex_fn rethrow) [VNum 5]"
  let ?B = "run True ex_jp ex_schemas_reject_return (ex_options ex_throwing_fn ex_recover)
              [VNum 5]"
  have va: "validate_args ex_jp False (schemas_args ex_schemas_reject_arg) [VNum 5] 0 [] =
     (Inl (argValidation_throwError ex_jp 1 ''ISSUES''), [EvArgValidation 1 (VNum 5)])"
    by (simp add: ex_defs argValidation_def)
  have a: "?A = (fst ?A, fst (snd ?A), snd (snd ?A))" by simp
  have b: "?B = (fst ?B, fst (snd ?B), snd (snd ?B))" by simp
  have trB: "snd (snd ?B) =
       [EvArgValidation 1 (VNum 5), EvExecFn [VNum 5], EvOnErrorFn ex_boom [VNum 5],
        EvReturnValidation (VNum 0)]"
    by (simp add: ex_defs pipeline_defs)
  have rs: "return_stage True ex_jp ex_schemas_reject_return (VNum 0) =
       Throw (returnValidation_throwError ex_jp ''ISSUES'')"
    by (simp add: ex_defs pipeline_defs)
  have boA: "fst (snd ?A) = ex_options ex_fn rethrow"
    by (simp add: ex_defs pipeline_defs)
  from validation_failures_bypass_onError [OF a] va
  have "fst ?A = Throw (argValidation_throwError ex_jp 1 ''ISSUES'')
        \<and> snd (snd ?A) = [EvArgValidation 1 (VNum 5)]"
    by simp
  with boA have A: "?A = (Throw (argValidation_throwError ex_jp 1 ''ISSUES''),
        ex_options ex_fn rethrow, [EvArgValidation 1 (VNum 5)])"
    by (metis a)
  from validation_failures_bypass_onError [OF b] trB rs
  have B: "fails_with (fst ?B) (returnValidation_throwError ex_jp ''ISSUES'')
      \<and> await_outcome (execFn (ex_options ex_throwing_fn ex_recover) [VNum 5]) = Throw ex_boom"
    by simp
  from va A trB rs B show ?thesis by blast
qed


text \<open>
  C2. In a closure made by \<^verbatim>\<open>create\<close>, when the arguments pass validation, the
  implementation throws and the error handler returns a promise, the call throws
  the \<^verbatim>\<open>ZodFnError\<close> with the message
  \<^verbatim>\<open>onError handler function cannot return a promise in a synchronous context\<close>; the last
  stage is the \<^verbatim>\<open>catch\<close> attached to the handler's promise, neither return validation
  nor the spy runs, and the options are unchanged.
\<close>

theorem onError_promise_in_sync_context:
  assumes "validate_args jp False (schemas_args s) call_args 0 [] = (Inr parsedArgs, tr0)"
    and "execFn bo parsedArgs = Throw error"
    and "onErrorFn bo error parsedArgs = Return p"
    and "instanceof_Promise p"
  shows "create_call jp s bo call_args =
           (Throw (ZodFnError
              ''onError handler function cannot return a promise in a synchronous context''),
            bo,
            tr0 @ [EvExecFn parsedArgs, EvOnErrorFn error parsedArgs, EvCatch p])"
  using assms by (simp add: create_call_def)

theorem onError_promise_in_sync_context_witness:
  "validate_args ex_jp False (schemas_args ex_schemas_accept) [VNum 5] 0 [] =
     (Inr [VNum 5], [EvArgValidation 1 (VNum 5)])
   \<and> execFn (ex_options ex_throwing_fn ex_async_recover) [VNum 5] = Throw ex_boom
   \<and> onErrorFn (ex_options ex_throwing_fn ex_async_recover) ex_boom [VNum 5] =
       Return (VPromise (Return (VNum 0)))
   \<and> instanceof_Promise (VPromise (Return (VNum 0)))
   \<and> create_call ex_jp ex_schemas_accept (ex_options ex_throwing_fn ex_async_recover) [VNum 5] =
       (Throw (ZodFnError
          ''onError handler function cannot return a promise in a synchronous context''),
        ex_options ex_throwing_fn ex_async_recover,
        [EvArgValidation 1 (VNum 5), EvExecFn [VNum 5], EvOnErrorFn ex_boom [VNum 5],
         EvCatch (VPromise (Return (VNum 0)))])"
proof -
  have va: "validate_args ex_jp False (schemas_args ex_schemas_accept) [VNum 5] 0 [] =
     (Inr [VNum 5], [EvArgValidation 1 (VNum 5)])"
    by (simp add: ex_defs argValidation_def)
  have ex: "execFn (ex_options ex_throwing_fn ex_async_recover) [VNum 5] = Throw ex_boom"
    by (simp add: ex_defs)
  have oe: "onErrorFn (ex_options ex_throwing_fn ex_async_recover) ex_boom [VNum 5] =
       Return (VPromise (Return (VNum 0)))"
    by (simp add: ex_defs)
  have ip: "instanceof_Promise (VPromise (Return (VNum 0)))" by simp
  from onError_promise_in_sync_context [OF va ex oe ip] va ex oe ip show ?thesis by simp
qed

theorem spy_applied_to_validated_result_witness:
  "validate_args ex_jp False (schemas_args ex_schemas_wrap) [VNum 5] 0 [] =
     (Inr [VNum 5], [EvArgValidation 1 (VNum 5)])
   \<and> recovery_stage False (ex_spied_options ex_recover) [VNum 5] = Return (VNum 0)
   \<and> return_stage False ex_jp ex_schemas_wrap (VNum 0) = Return (VArr [VNum 0])
   \<and> fst (run False ex_jp ex_schemas_wrap (ex_spied_options ex_recover) [VNum 5]) =
       Throw (VArr [VArr [VNum 5], VArr [VNum 0], VNum 8])
   \<and> fst (snd (run False ex_jp ex_schemas_wrap (ex_spied_options ex_recover) [VNum 5])) =
       (ex_spied_options ex_recover)\<lparr>spyFnCount := 8\<rparr>
   \<and> validate_args ex_jp True (schemas_args ex_schemas_wrap) [VNum 5] 0 [] =
       (Inr [VNum 5], [EvArgValidation 1 (VNum 5)])
   \<and> recovery_stage True (ex_spied_options ex_async_recover) [VNum 5] = Return (VNum 0)
   \<and> return_stage True ex_jp ex_schemas_wrap (VNum 0) = Return (VArr [VNum 0])
   \<and> fst (run True ex_jp ex_schemas_wrap (ex_spied_options ex_async_recover) [VNum 5]) =
       Return (VPromise (Throw (VArr [VArr [VNum 5], VArr [VNum 0], VNum 8])))
   \<and> validate_args ex_jp False (schemas_args ex_schemas_reject_return) [VNum 5] 0 [] =
       (Inr [VNum 5], [EvArgValidation 1 (VNum 5)])
   \<and> return_stage False ex_jp ex_schemas_reject_return (VNum 0) =
       Throw (returnValidation_throwError ex_jp ''ISSUES'')
   \<and> run False ex_jp ex_schemas_reject_return (ex_spied_options ex_recover) [VNum 5] =
       (Throw (returnValidation_throwError ex_jp ''ISSUES''), ex_spied_options ex_recover,
        [EvArgValidation 1 (VNum 5), EvExecFn [VNum 5], EvOnErrorFn ex_boom [VNum 5],
         EvReturnValidation (VNum 0)])
   \<and> recovery_stage False (ex_spied_options rethrow) [VNum 5] = Throw ex_boom
   \<and> fst (run False ex_jp ex_schemas_wrap (ex_spied_options rethrow) [VNum 5]) = Throw ex_boom
   \<and> fst (snd (run False ex_jp ex_schemas_wrap (ex_spied_options rethrow) [VNum 5])) =
       ex_spied_options rethrow"
proof -
  let ?bo = "ex_spied_options ex_recover"
  let ?ba = "ex_spied_options ex_async_recover"
  let ?br = "ex_spied_options rethrow"
  have va: "validate_args ex_jp False (schemas_args ex_schemas_wrap) [VNum 5] 0 [] =
     (Inr [VNum 5], [EvArgValidation 1 (VNum 5)])"
    by (simp add: ex_schemas_wrap_def ex_defs argValidation_def)
  have vaT: "validate_args ex_jp True (schemas_args ex_schemas_wrap) [VNum 5] 0 [] =
     (Inr [VNum 5], [EvArgValidation 1 (VNum 5)])"
    by (simp add: ex_schemas_wrap_def ex_defs argValidation_def)
  have vaR: "validate_args ex_jp False (schemas_args ex_schemas_reject_return) [VNum 5] 0 [] =
     (Inr [VNum 5], [EvArgValidation 1 (VNum 5)])"
    by (simp add: ex_defs argValidation_def)
  have ip: "\<not> in_promise False (ex_spied_options handler) [VNum 5]" for handler
    by (simp add: in_promise_def ex_spied_options_def ex_defs)
  have hs: "handler_stages (ex_spied_options handler) [VNum 5] = [EvOnErrorFn ex_boom [VNum 5]]"
    for handler
    by (simp add: handler_stages_def ex_spied_options_def ex_defs)
  have sel: "spyFn (ex_spied_options handler) = ex_spy"
    "spyFnCount (ex_spied_options handler) = 7" for handler
    by (simp_all add: ex_spied_options_def)
  have rec: "recovery_stage False ?bo [VNum 5] = Return (VNum 0)"
    by (simp add: recovery_stage_def in_promise_def ex_spied_options_def ex_defs)
  have recT: "recovery_stage True ?ba [VNum 5] = Return (VNum 0)"
    by (simp add: recovery_stage_def in_promise_def ex_spied_options_def ex_defs)
  have recF: "recovery_stage False ?br [VNum 5] = Throw ex_boom"
    by (simp add: recovery_stage_def in_promise_def ex_spied_options_def ex_defs)
  have rs: "return_stage False ex_jp ex_schemas_wrap (VNum 0) = Return (VArr [VNum 0])"
    by (simp add: return_stage_def returnValidation_def ex_schemas_wrap_def ex_wrap_def)
  have rsT: "return_stage True ex_jp ex_schemas_wrap (VNum 0) = Return (VArr [VNum 0])"
    by (simp add: return_stage_def returnValidation_def ex_schemas_wrap_def ex_wrap_def)
  have rsR: "return_stage False ex_jp ex_schemas_reject_return (VNum 0) =
       Throw (returnValidation_throwError ex_jp ''ISSUES'')"
    by (simp add: ex_defs pipeline_defs)
  note t = spy_applied_to_validated_result [OF va, of ?bo]
  note a = t [THEN conjunct1, THEN spec, THEN spec, THEN mp, OF conjI [OF rec rs]]
  from a have a1: "fst (run False ex_jp ex_schemas_wrap ?bo [VNum 5]) =
       Throw (VArr [VArr [VNum 5], VArr [VNum 0], VNum 8])"
    by (simp add: spy_stage_outcome_def ip sel ex_spy_def)
  from a have a2: "fst (snd (run False ex_jp ex_schemas_wrap ?bo [VNum 5])) =
       ?bo\<lparr>spyFnCount := 8\<rparr>"
    by (simp add: sel)
  note tT = spy_applied_to_validated_result [OF vaT, of ?ba]
  note b = tT [THEN conjunct1, THEN spec, THEN spec, THEN mp, OF conjI [OF recT rsT]]
  from b have b1: "fst (run True ex_jp ex_schemas_wrap ?ba [VNum 5]) =
       Return (VPromise (Throw (VArr [VArr [VNum 5], VArr [VNum 0], VNum 8])))"
    by (simp add: spy_stage_outcome_def in_promise_def sel ex_spy_def)
  note tR = spy_applied_to_validated_result [OF vaR, of ?bo]
  note c = tR [THEN conjunct2, THEN conjunct1, THEN spec, THEN spec, THEN mp,
      OF conjI [OF rec rsR]]
  from c have c1: "run False ex_jp ex_schemas_reject_return ?bo [VNum 5] =
       (Throw (returnValidation_throwError ex_jp ''ISSUES''), ?bo,
        [EvArgValidation 1 (VNum 5), EvExecFn [VNum 5], EvOnErrorFn ex_boom [VNum 5],
         EvReturnValidation (VNum 0)])"
    by (simp add: ip hs)
  note tF = spy_applied_to_validated_result [OF va, of ?br]
  note d = tF [THEN conjunct2, THEN conjunct2, THEN conjunct1, THEN spec, THEN mp, OF recF]
  from d have d1: "fst (run False ex_jp ex_schemas_wrap ?br [VNum 5]) = Throw ex_boom"
    and d2: "fst (snd (run False ex_jp ex_schemas_wrap ?br [VNum 5])) = ?br"
    by (simp_all add: ip)
  show ?thesis
    by (intro conjI) (rule va, rule rec, rule rs, rule a1, rule a2, rule vaT, rule recT,
        rule rsT, rule b1, rule vaR, rule rsR, rule c1, rule recF, rule d1, rule d2)
qed


lemma recovery_stage_frame:
  "recovery_stage async (bo\<lparr>spyFnCount := n\<rparr>) = recovery_stage async bo"
  "recovery_stage async (bo\<lparr>spyFnCount := n, spyFn := sp\<rparr>) = recovery_stage async bo"
  by (intro ext, simp add: recovery_stage_def in_promise_def cong: outcome.case_cong)+

lemma spy_input_frame:
  "spy_input async jp s (bo\<lparr>spyFnCount := n\<rparr>) = spy_input async jp s bo"
  "spy_input async jp s (bo\<lparr>spyFnCount := n, spyFn := sp\<rparr>) = spy_input async jp s bo"
  unfolding spy_input_def recovery_stage_frame by (rule refl)+

lemma in_promise_frame:
  "in_promise async (bo\<lparr>spyFnCount := n\<rparr>) = in_promise async bo"
  "in_promise async (bo\<lparr>spyFnCount := n, spyFn := sp\<rparr>) = in_promise async bo"
  by (intro ext, simp add: in_promise_def)+

lemma run_spied:
  assumes "spy_input async jp s bo xs = Some (pa, r)"
  shows "fst (run async jp s bo xs) =
           spy_stage_outcome (in_promise async bo pa) (spyFn bo pa r (spyFnCount bo + 1)) r
         \<and> fst (snd (run async jp s bo xs)) = bo\<lparr>spyFnCount := spyFnCount bo + 1\<rparr>"
proof -
  obtain res tr0 where va: "validate_args jp async (schemas_args s) xs 0 [] = (res, tr0)"
    by (cases "validate_args jp async (schemas_args s) xs 0 []")
  show ?thesis
  proof (cases res)
    case (Inl e)
    with assms va show ?thesis by (simp add: spy_input_def)
  next
    case (Inr pa')
    show ?thesis
    proof (cases "recovery_stage async bo pa'")
      case (Throw e)
      with assms va Inr show ?thesis by (simp add: spy_input_def)
    next
      case rec: (Return v)
      show ?thesis
      proof (cases "return_stage async jp s v")
        case (Throw e)
        with assms va Inr rec show ?thesis by (simp add: spy_input_def)
      next
        case rs: (Return r')
        with assms va Inr rec have same: "pa' = pa" "r' = r" by (simp_all add: spy_input_def)
        from va Inr same have va': "validate_args jp async (schemas_args s) xs 0 [] = (Inr pa, tr0)"
          by simp
        from rec same have rec': "recovery_stage async bo pa = Return v" by simp
        from rs same have rs': "return_stage async jp s v = Return r" by simp
        show ?thesis by (simp add: run_after_recovery [OF va' rec'] rs')
      qed
    qed
  qed
qed

lemma run_not_spied:
  assumes "spy_input async jp s bo xs = None"
  shows "fst (snd (run async jp s bo xs)) = bo \<and> (\<exists>e. fails_with (fst (run async jp s bo xs)) e)"
proof -
  obtain res tr0 where va: "validate_args jp async (schemas_args s) xs 0 [] = (res, tr0)"
    by (cases "validate_args jp async (schemas_args s) xs 0 []")
  show ?thesis
  proof (cases res)
    case (Inl e)
    with va have "validate_args jp async (schemas_args s) xs 0 [] = (Inl e, tr0)" by simp
    from run_args_fail [OF this, of bo] show ?thesis by (auto simp: fails_with_def)
  next
    case (Inr pa)
    with va have va': "validate_args jp async (schemas_args s) xs 0 [] = (Inr pa, tr0)" by simp
    show ?thesis
    proof (cases "recovery_stage async bo pa")
      case (Throw e)
      from run_recovery_fails [OF va' Throw] show ?thesis by (auto simp: fails_with_def)
    next
      case rec: (Return v)
      show ?thesis
      proof (cases "return_stage async jp s v")
        case (Throw e)
        then show ?thesis
          by (auto simp: run_after_recovery [OF va' rec] fails_with_def)
      next
        case (Return r)
        with assms va Inr rec show ?thesis by (simp add: spy_input_def)
      qed
    qed
  qed
qed

lemma invoke_calls_spied:
  "read_schemas h (builder f) = Some s \<Longrightarrow>
   map (spy_input (isAsync f) jp s (opts f)) calls = map Some ds \<Longrightarrow>
   invoke_calls jp h f calls =
     (map (\<lambda>(k, pa, r). spy_stage_outcome (in_promise (isAsync f) (opts f) pa)
                           (spyFn (opts f) pa r k) r)
          (enumerate (spyFnCount (opts f) + 1) ds),
      f\<lparr>opts := (opts f)\<lparr>spyFnCount := spyFnCount (opts f) + length calls\<rparr>\<rparr>)"
proof (induction calls arbitrary: f ds)
  case Nil
  then show ?case by simp
next
  case (Cons xs rest)
  from Cons.prems(2) obtain pa r ds' where ds: "ds = (pa, r) # ds'"
    and sx: "spy_input (isAsync f) jp s (opts f) xs = Some (pa, r)"
    and rest: "map (spy_input (isAsync f) jp s (opts f)) rest = map Some ds'"
    by (cases ds) auto
  let ?f1 = "f\<lparr>opts := (opts f)\<lparr>spyFnCount := spyFnCount (opts f) + 1\<rparr>\<rparr>"
  let ?c = "spy_stage_outcome (in_promise (isAsync f) (opts f) pa)
              (spyFn (opts f) pa r (spyFnCount (opts f) + 1)) r"
  from run_spied [OF sx]
  have r1: "fst (run (isAsync f) jp s (opts f) xs) = ?c"
    and r2: "fst (snd (run (isAsync f) jp s (opts f) xs)) =
               (opts f)\<lparr>spyFnCount := spyFnCount (opts f) + 1\<rparr>"
    by simp_all
  obtain c bo' tr where r: "run (isAsync f) jp s (opts f) xs = (c, bo', tr)"
    by (cases "run (isAsync f) jp s (opts f) xs")
  from r r1 r2 have "c = ?c" "bo' = (opts f)\<lparr>spyFnCount := spyFnCount (opts f) + 1\<rparr>"
    by simp_all
  with r Cons.prems(1) have inv: "invoke jp h f xs = (?c, ?f1, tr)"
    by (simp add: invoke_def)
  have b: "read_schemas h (builder ?f1) = Some s" using Cons.prems(1) by simp
  have m: "map (spy_input (isAsync ?f1) jp s (opts ?f1)) rest = map Some ds'"
    using rest by (simp add: spy_input_frame)
  note ih = Cons.IH [OF b m]
  have step: "invoke_calls jp h f (xs # rest) =
      (?c # fst (invoke_calls jp h ?f1 rest), snd (invoke_calls jp h ?f1 rest))"
    by (simp add: inv split: prod.splits)
  show ?case
    unfolding step ih by (simp add: ds in_promise_frame)
qed

text \<open>
  C8. For a callable \<open>f\<close> on a configured builder and a sequence of calls in each of which
  argument validation, the implementation or the error handler, and return validation
  succeed, with parsed arguments and validated results \<open>ds\<close>: \<^verbatim>\<open>spy(sp)\<close> with a
  function gives \<open>f\<close> with \<open>sp\<close> installed and the counter at 0, and the calls of that
  callable complete as the calls of \<open>sp\<close> on the parsed arguments, the validated result
  and the counters 1, 2, ... determine, leaving the counter at the number of calls;
  \<^verbatim>\<open>resetSpy()\<close> gives \<open>f\<close> with the no-op spy and the counter at 0, and the calls of that
  callable are those of the no-op spy, with the counters 1, 2, ...; a spy installed
  after \<^verbatim>\<open>resetSpy()\<close> gives the same callable as one installed on \<open>f\<close>, so its counters
  start at 1 again; the calls of \<open>f\<close> itself are passed the counters that follow its own. A call in which one of the
  stages before the spy fails leaves the callable as it was, and fails. The user's
  functions do not call the callable while a call is running.
\<close>

theorem spy_applied_with_counter:
  assumes "read_schemas h (builder f) = Some s"
    and "map (spy_input (isAsync f) jp s (opts f)) calls = map Some ds"
  shows "spy f (Function sp) = Inr (f\<lparr>opts := (opts f)\<lparr>spyFnCount := 0, spyFn := sp\<rparr>\<rparr>)
       \<and> invoke_calls jp h (f\<lparr>opts := (opts f)\<lparr>spyFnCount := 0, spyFn := sp\<rparr>\<rparr>) calls =
           (map (\<lambda>(k, pa, r). spy_stage_outcome (in_promise (isAsync f) (opts f) pa) (sp pa r k) r)
                (enumerate 1 ds),
            f\<lparr>opts := (opts f)\<lparr>spyFnCount := length calls, spyFn := sp\<rparr>\<rparr>)
       \<and> resetSpy f = f\<lparr>opts := (opts f)\<lparr>spyFnCount := 0, spyFn := no_op_spy\<rparr>\<rparr>
       \<and> invoke_calls jp h (resetSpy f) calls =
           (map (\<lambda>(k, pa, r). spy_stage_outcome (in_promise (isAsync f) (opts f) pa)
                                 (no_op_spy pa r k) r)
                (enumerate 1 ds),
            f\<lparr>opts := (opts f)\<lparr>spyFnCount := length calls, spyFn := no_op_spy\<rparr>\<rparr>)
       \<and> spy (resetSpy f) (Function sp) =
           Inr (f\<lparr>opts := (opts f)\<lparr>spyFnCount := 0, spyFn := sp\<rparr>\<rparr>)
       \<and> invoke_calls jp h f calls =
           (map (\<lambda>(k, pa, r). spy_stage_outcome (in_promise (isAsync f) (opts f) pa)
                                 (spyFn (opts f) pa r k) r)
                (enumerate (spyFnCount (opts f) + 1) ds),
            f\<lparr>opts := (opts f)\<lparr>spyFnCount := spyFnCount (opts f) + length calls\<rparr>\<rparr>)
       \<and> (\<forall>xs. spy_input (isAsync f) jp s (opts f) xs = None \<longrightarrow>
             fst (snd (invoke jp h f xs)) = f \<and> (\<exists>e. fails_with (fst (invoke jp h f xs)) e))"
proof -
  have installed: "invoke_calls jp h (f\<lparr>opts := (opts f)\<lparr>spyFnCount := 0, spyFn := g\<rparr>\<rparr>) calls =
           (map (\<lambda>(k, pa, r). spy_stage_outcome (in_promise (isAsync f) (opts f) pa) (g pa r k) r)
                (enumerate 1 ds),
            f\<lparr>opts := (opts f)\<lparr>spyFnCount := length calls, spyFn := g\<rparr>\<rparr>)" for g
  proof -
    let ?f1 = "f\<lparr>opts := (opts f)\<lparr>spyFnCount := 0, spyFn := g\<rparr>\<rparr>"
    have b: "read_schemas h (builder ?f1) = Some s" using assms(1) by simp
    have m: "map (spy_input (isAsync ?f1) jp s (opts ?f1)) calls = map Some ds"
      using assms(2) by (simp add: spy_input_frame)
    show ?thesis
      unfolding invoke_calls_spied [OF b m] by (simp add: in_promise_frame)
  qed
  have 1: "spy f (Function sp) = Inr (f\<lparr>opts := (opts f)\<lparr>spyFnCount := 0, spyFn := sp\<rparr>\<rparr>)"
    by (simp add: spy_def)
  have 3: "resetSpy f = f\<lparr>opts := (opts f)\<lparr>spyFnCount := 0, spyFn := no_op_spy\<rparr>\<rparr>"
    by (simp add: resetSpy_def)
  have 4: "invoke_calls jp h (resetSpy f) calls =
           (map (\<lambda>(k, pa, r). spy_stage_outcome (in_promise (isAsync f) (opts f) pa)
                                 (no_op_spy pa r k) r)
                (enumerate 1 ds),
            f\<lparr>opts := (opts f)\<lparr>spyFnCount := length calls, spyFn := no_op_spy\<rparr>\<rparr>)"
    unfolding 3 by (rule installed)
  have 5: "spy (resetSpy f) (Function sp) =
           Inr (f\<lparr>opts := (opts f)\<lparr>spyFnCount := 0, spyFn := sp\<rparr>\<rparr>)"
    by (simp add: spy_def resetSpy_def)
  have 6: "fst (snd (invoke jp h f xs)) = f \<and> (\<exists>e. fails_with (fst (invoke jp h f xs)) e)"
    if n: "spy_input (isAsync f) jp s (opts f) xs = None" for xs
  proof -
    obtain c bo' tr where r: "run (isAsync f) jp s (opts f) xs = (c, bo', tr)"
      by (cases "run (isAsync f) jp s (opts f) xs")
    from run_not_spied [OF n] r have "bo' = opts f" "\<exists>e. fails_with c e" by simp_all
    with r assms(1) show ?thesis by (simp add: invoke_def)
  qed
  have 6: "\<forall>xs. spy_input (isAsync f) jp s (opts f) xs = None \<longrightarrow>
             fst (snd (invoke jp h f xs)) = f \<and> (\<exists>e. fails_with (fst (invoke jp h f xs)) e)"
    using 6 by blast
  show ?thesis
    by (intro conjI) (rule 1, rule installed, rule 3, rule 4, rule 5,
        rule invoke_calls_spied [OF assms], rule 6)
qed

lemma validate_args_take:
  "validate_args jp async (take (i + length xs) ss) xs i pa = validate_args jp async ss xs i pa"
proof (induction xs arbitrary: i pa)
  case Nil
  show ?case by simp
next
  case (Cons a rest)
  have t: "take (i + length (a # rest)) ss = take (i + 1 + length rest) ss" by simp
  have l: "(if i < length (take (i + 1 + length rest) ss) then take (i + 1 + length rest) ss ! i
            else CUndefined) = (if i < length ss then ss ! i else CUndefined)"
    by simp
  show ?case
    unfolding t validate_args.simps l Cons.IH [of "i + 1"] ..
qed

lemma run_take:
  "run async jp (s\<lparr>schemas_args := take (length call_args) (schemas_args s)\<rparr>) bo call_args =
   run async jp s bo call_args"
proof -
  let ?s = "s\<lparr>schemas_args := take (length call_args) (schemas_args s)\<rparr>"
  have a: "schemas_args ?s = take (length call_args) (schemas_args s)"
    and r: "schemas_return ?s = schemas_return s"
    by simp_all
  have v: "validate_args jp b (take (length call_args) (schemas_args s)) call_args 0 [] =
           validate_args jp b (schemas_args s) call_args 0 []" for b
    using validate_args_take [of jp b 0 call_args "schemas_args s" "[]"] by simp
  have f: "create_finish jp ?s = create_finish jp s"
    by (intro ext) (simp only: create_finish_def r)
  have g: "create_async_branch jp ?s = create_async_branch jp s"
    by (intro ext) (simp only: create_async_branch_def r)
  have 1: "create_call jp ?s bo call_args = create_call jp s bo call_args"
    by (simp only: create_call_def a v f g)
  have "createAsync_body jp ?s bo call_args = createAsync_body jp s bo call_args"
    by (simp only: createAsync_body_def a v r)
  then have 2: "createAsync_call jp ?s bo call_args = createAsync_call jp s bo call_args"
    by (simp only: createAsync_call_def)
  from 1 2 show ?thesis by (simp only: run_def)
qed

text \<open>
  C10. In every call, \<^verbatim>\<open>argValidation\<close> runs only for 1-based positions up to the number
  of arguments passed, on the argument at that position; and the call is the same, in
  completion, options and stages, as the call with the argument schemas beyond the
  passed arguments removed.
\<close>

theorem trailing_schemas_not_applied:
  assumes "run async jp s bo call_args = (c, bo', tr)"
  shows "(\<forall>i a. EvArgValidation i a \<in> set tr \<longrightarrow>
            1 \<le> i \<and> i \<le> length call_args \<and> a = call_args ! (i - 1))
       \<and> run async jp (s\<lparr>schemas_args := take (length call_args) (schemas_args s)\<rparr>) bo call_args
           = (c, bo', tr)"
proof -
  have ev: "1 \<le> i \<and> i \<le> length call_args \<and> a = call_args ! (i - 1)"
    if "validate_args jp async (schemas_args s) call_args 0 [] = (r0, tr0)"
      and "EvArgValidation i a \<in> set tr0" for r0 tr0 i a
    using validate_args_events [OF that] by auto
  have "\<forall>i a. EvArgValidation i a \<in> set tr \<longrightarrow>
            1 \<le> i \<and> i \<le> length call_args \<and> a = call_args ! (i - 1)"
    using assms
  proof (cases rule: run_cases)
    case (ArgFail e tr0)
    then show ?thesis using ev [of "Inl e" tr0] by auto
  next
    case (HandlerFail pa tr0 err post e)
    then show ?thesis using ev [of "Inr pa" tr0] by auto
  next
    case (ReturnFail pa tr0 mid v e)
    then show ?thesis using ev [of "Inr pa" tr0] by auto
  next
    case (Spied pa tr0 mid v r post)
    then show ?thesis using ev [of "Inr pa" tr0] by auto
  qed
  with assms show ?thesis by (simp add: run_take)
qed


theorem trailing_schemas_not_applied_witness:
  "call_parse (CObj ex_reject) VUndefined = Inl ''ISSUES''
   \<and> run False ex_jp ex_schemas_two (ex_options ex_fn rethrow) [VNum 5] =
       (Return (VArr [VNum 5]), (ex_options ex_fn rethrow)\<lparr>spyFnCount := 1\<rparr>,
        [EvArgValidation 1 (VNum 5), EvExecFn [VNum 5], EvReturnValidation (VArr [VNum 5]),
         EvSpyFn [VNum 5] (VArr [VNum 5]) 1])
   \<and> (1::nat) \<le> length [VNum 5] \<and> VNum 5 = [VNum 5] ! (1 - 1)
   \<and> run False ex_jp (ex_schemas_two\<lparr>schemas_args := take (length [VNum 5])
                                              (schemas_args ex_schemas_two)\<rparr>)
         (ex_options ex_fn rethrow) [VNum 5] =
       (Return (VArr [VNum 5]), (ex_options ex_fn rethrow)\<lparr>spyFnCount := 1\<rparr>,
        [EvArgValidation 1 (VNum 5), EvExecFn [VNum 5], EvReturnValidation (VArr [VNum 5]),
         EvSpyFn [VNum 5] (VArr [VNum 5]) 1])"
proof -
  have rej: "call_parse (CObj ex_reject) VUndefined = Inl ''ISSUES''"
    by (simp add: ex_reject_def)
  have r: "run False ex_jp ex_schemas_two (ex_options ex_fn rethrow) [VNum 5] =
       (Return (VArr [VNum 5]), (ex_options ex_fn rethrow)\<lparr>spyFnCount := 1\<rparr>,
        [EvArgValidation 1 (VNum 5), EvExecFn [VNum 5], EvReturnValidation (VArr [VNum 5]),
         EvSpyFn [VNum 5] (VArr [VNum 5]) 1])"
    by (simp add: ex_schemas_two_def ex_defs pipeline_defs)
  from trailing_schemas_not_applied [OF r] rej r show ?thesis by simp
qed

section \<open>Builders in the store\<close>

lemma schemas_owner_own:
  "a < length h \<Longrightarrow> own_schemas (h ! a) = Some s \<Longrightarrow> schemas_owner h (length h) a = Some a"
  by (cases "length h") auto

lemma schemas_owner_root:
  "a < length h \<Longrightarrow> own_schemas (h ! a) = None \<Longrightarrow> proto (h ! a) = None \<Longrightarrow>
     schemas_owner h n a = None"
  by (cases n) auto

lemma read_schemas_own:
  "a < length h \<Longrightarrow> own_schemas (h ! a) = Some s \<Longrightarrow> read_schemas h a = Some s"
  by (simp add: read_schemas_def schemas_owner_own)

lemma getBuilderInstance_own:
  "a < length h \<Longrightarrow> own_schemas (h ! a) = Some s \<Longrightarrow> getBuilderInstance h a = (a, h)"
  by (simp add: getBuilderInstance_def schemas_owner_own)

lemma getBuilderInstance_none:
  "schemas_owner h (length h) a = None \<Longrightarrow>
     getBuilderInstance h a =
       (length h, h @ [\<lparr>proto = Some a,
                        own_schemas = Some \<lparr>schemas_args = [], schemas_return = CUndefined\<rparr>\<rparr>])"
  by (simp add: getBuilderInstance_def)

text \<open>After \<^verbatim>\<open>getBuilderInstance\<close> the builder reaches a schema record.\<close>

lemma getBuilderInstance_has_schemas:
  assumes "getBuilderInstance h ob = (b, h1)"
  shows "schemas_owner h1 (length h1) b \<noteq> None"
proof (cases "schemas_owner h (length h) ob")
  case None
  with assms have "b = length h" and
    "h1 = h @ [\<lparr>proto = Some ob,
                  own_schemas = Some \<lparr>schemas_args = [], schemas_return = CUndefined\<rparr>\<rparr>]"
    by (simp_all add: getBuilderInstance_def)
  then show ?thesis by simp
next
  case (Some ow)
  with assms show ?thesis by (simp add: getBuilderInstance_def)
qed

lemma update_schemas_own:
  "a < length h \<Longrightarrow> own_schemas (h ! a) = Some s \<Longrightarrow>
     update_schemas h a f = h[a := (h ! a)\<lparr>own_schemas := Some (f s)\<rparr>]"
  by (simp add: update_schemas_def schemas_owner_own)

lemma update_schemas_new:
  "update_schemas (h @ [\<lparr>proto = p, own_schemas = Some s\<rparr>]) (length h) f =
     h @ [\<lparr>proto = p, own_schemas = Some (f s)\<rparr>]"
  using update_schemas_own [of "length h" "h @ [\<lparr>proto = p, own_schemas = Some s\<rparr>]" s f]
  by simp

text \<open>What a step does on a receiver that owns its record, and on one without schema state.\<close>

lemma args_own:
  assumes "this < length h" and "own_schemas (h ! this) = Some s"
  shows "args h this vs =
      (if length vs = 0 then (Inl (ZodFnError ''Argument schemas not provided''), h)
       else case check_argSchemas vs 0 of
              Some e \<Rightarrow> (Inl e, h)
            | None \<Rightarrow> (Inr this, h[this := (h ! this)\<lparr>own_schemas := Some (s\<lparr>schemas_args := vs\<rparr>)\<rparr>]))"
  using assms by (simp add: args_def getBuilderInstance_own update_schemas_own split: option.splits)

lemma returns_own:
  assumes "this < length h" and "own_schemas (h ! this) = Some s"
  shows "returns h this v =
      (case v of
         CUndefined \<Rightarrow> (Inl (ZodFnError ''Return schema not provided''), h)
       | _ \<Rightarrow> if \<not> has_parseAsync v
              then (Inl (ZodFnError ''Return value must be a valid Zod schema''), h)
              else (Inr this, h[this := (h ! this)\<lparr>own_schemas := Some (s\<lparr>schemas_return := v\<rparr>)\<rparr>]))"
  using assms by (simp add: returns_def getBuilderInstance_own update_schemas_own split: cand.splits)

lemma args_none:
  assumes "schemas_owner h (length h) this = None"
  shows "args h this vs =
      (if length vs = 0 \<or> check_argSchemas vs 0 \<noteq> None
       then (Inl (if length vs = 0 then ZodFnError ''Argument schemas not provided''
                  else the (check_argSchemas vs 0)),
             h @ [\<lparr>proto = Some this,
                    own_schemas = Some \<lparr>schemas_args = [], schemas_return = CUndefined\<rparr>\<rparr>])
       else (Inr (length h),
             h @ [\<lparr>proto = Some this,
                    own_schemas = Some \<lparr>schemas_args = vs, schemas_return = CUndefined\<rparr>\<rparr>]))"
  using assms by (auto simp: args_def getBuilderInstance_none update_schemas_new split: option.splits)

lemma returns_none:
  assumes "schemas_owner h (length h) this = None"
  shows "returns h this v =
      (if \<not> has_parseAsync v
       then (Inl (case v of CUndefined \<Rightarrow> ZodFnError ''Return schema not provided''
                   | _ \<Rightarrow> ZodFnError ''Return value must be a valid Zod schema''),
             h @ [\<lparr>proto = Some this,
                    own_schemas = Some \<lparr>schemas_args = [], schemas_return = CUndefined\<rparr>\<rparr>])
       else (Inr (length h),
             h @ [\<lparr>proto = Some this,
                    own_schemas = Some \<lparr>schemas_args = [], schemas_return = v\<rparr>\<rparr>]))"
  using assms by (auto simp: returns_def getBuilderInstance_none update_schemas_new split: cand.splits)


lemma args_own_frame:
  assumes "this < length h" and "own_schemas (h ! this) = Some s" and "args h this vs = (r, h')"
  shows "length h' = length h \<and> (\<forall>a. a \<noteq> this \<longrightarrow> h' ! a = h ! a)
       \<and> proto (h' ! this) = proto (h ! this) \<and> (\<exists>s'. own_schemas (h' ! this) = Some s')
       \<and> (\<forall>b. r = Inr b \<longrightarrow> b = this)"
  using assms by (auto simp: args_own split: if_splits option.splits)

lemma returns_own_frame:
  assumes "this < length h" and "own_schemas (h ! this) = Some s" and "returns h this v = (r, h')"
  shows "length h' = length h \<and> (\<forall>a. a \<noteq> this \<longrightarrow> h' ! a = h ! a)
       \<and> proto (h' ! this) = proto (h ! this) \<and> (\<exists>s'. own_schemas (h' ! this) = Some s')
       \<and> (\<forall>b. r = Inr b \<longrightarrow> b = this)"
  using assms by (auto simp: returns_own split: if_splits cand.splits)

lemma build_own_frame:
  assumes "this < length h" and "own_schemas (h ! this) = Some s" and "build h this bf = (r, h')"
  shows "length h' = length h \<and> (\<forall>a. a \<noteq> this \<longrightarrow> h' ! a = h ! a)
       \<and> proto (h' ! this) = proto (h ! this) \<and> (\<exists>s'. own_schemas (h' ! this) = Some s')
       \<and> (\<forall>b. r = Inr b \<longrightarrow> b = this)"
proof -
  note gb = getBuilderInstance_own [OF assms(1,2)]
  show ?thesis
  proof (cases bf)
    case Undefined
    with assms gb show ?thesis by (auto simp: build_def)
  next
    case NotAFunction
    with assms gb show ?thesis by (auto simp: build_def)
  next
    case (Function res)
    show ?thesis
    proof (cases res)
      case (Inl e)
      with Function assms gb show ?thesis by (auto simp: build_def)
    next
      case (Inr br)
      show ?thesis
      proof (cases br)
        case NotAnObject
        with Inr Function assms gb show ?thesis by (auto simp: build_def)
      next
        case (ResultObject ra rr)
        obtain r1 h1 where a1: "(case ra of None \<Rightarrow> (Inr this, h) | Some xs \<Rightarrow> args h this xs) = (r1, h1)"
          by (cases "case ra of None \<Rightarrow> (Inr this, h) | Some xs \<Rightarrow> args h this xs")
        have f1: "length h1 = length h \<and> (\<forall>a. a \<noteq> this \<longrightarrow> h1 ! a = h ! a)
            \<and> proto (h1 ! this) = proto (h ! this) \<and> (\<exists>s'. own_schemas (h1 ! this) = Some s')
            \<and> (\<forall>b. r1 = Inr b \<longrightarrow> b = this)"
        proof (cases ra)
          case None
          with a1 assms show ?thesis by auto
        next
          case (Some xs)
          with a1 have "args h this xs = (r1, h1)" by simp
          from args_own_frame [OF assms(1,2) this] show ?thesis .
        qed
        show ?thesis
        proof (cases r1)
          case e: (Inl e)
          from assms(3) have "r = Inl e \<and> h' = h1"
            by (simp add: build_def gb Function Inr ResultObject a1 e)
          with f1 show ?thesis by simp
        next
          case b: (Inr b)
          show ?thesis
          proof (cases "cand_truthy rr")
            case False
            from assms(3) have "r = Inr this \<and> h' = h1"
              by (simp add: build_def gb Function Inr ResultObject a1 b False)
            with f1 show ?thesis by simp
          next
            case True
            obtain r2 h2 where a2: "returns h1 this rr = (r2, h2)"
              by (cases "returns h1 this rr")
            from f1 assms(1) obtain s1 where o1: "this < length h1" "own_schemas (h1 ! this) = Some s1"
              by auto
            note f2 = returns_own_frame [OF o1 a2]
            from assms(3) have "h' = h2 \<and> (r = r2 \<or> r = Inr this)"
              by (auto simp: build_def gb Function Inr ResultObject a1 b True a2 split: sum.splits)
            with f1 f2 show ?thesis by auto
          qed
        qed
      qed
    qed
  qed
qed

lemma apply_step_own_frame:
  assumes "this < length h" and "own_schemas (h ! this) = Some s" and "apply_step h this st = (r, h')"
  shows "length h' = length h \<and> (\<forall>a. a \<noteq> this \<longrightarrow> h' ! a = h ! a)
       \<and> proto (h' ! this) = proto (h ! this) \<and> (\<exists>s'. own_schemas (h' ! this) = Some s')
       \<and> (\<forall>b. r = Inr b \<longrightarrow> b = this)"
proof (cases st)
  case (StepArgs vs)
  with assms(3) have "args h this vs = (r, h')" by simp
  from args_own_frame [OF assms(1,2) this] show ?thesis .
next
  case (StepReturns v)
  with assms(3) have "returns h this v = (r, h')" by simp
  from returns_own_frame [OF assms(1,2) this] show ?thesis .
next
  case (StepBuild bf)
  with assms(3) have "build h this bf = (r, h')" by simp
  from build_own_frame [OF assms(1,2) this] show ?thesis .
qed


lemma apply_step_via_instance:
  assumes "getBuilderInstance h this = (b, h1)" and "getBuilderInstance h1 b = (b, h1)"
  shows "apply_step h this st = apply_step h1 b st"
  using assms by (cases st) (simp_all add: args_def returns_def build_def)

lemma apply_step_none_frame:
  assumes "schemas_owner h (length h) this = None" and "apply_step h this st = (r, h')"
  shows "length h' = Suc (length h) \<and> (\<forall>a<length h. h' ! a = h ! a)
       \<and> proto (h' ! length h) = Some this \<and> (\<exists>s'. own_schemas (h' ! length h) = Some s')
       \<and> (\<forall>b. r = Inr b \<longrightarrow> b = length h)"
proof -
  let ?s0 = "\<lparr>schemas_args = [], schemas_return = CUndefined\<rparr>"
  let ?h1 = "h @ [\<lparr>proto = Some this, own_schemas = Some ?s0\<rparr>]"
  have g: "getBuilderInstance h this = (length h, ?h1)"
    using assms(1) by (rule getBuilderInstance_none)
  have l: "length h < length ?h1" and o: "own_schemas (?h1 ! length h) = Some ?s0"
    by simp_all
  have g1: "getBuilderInstance ?h1 (length h) = (length h, ?h1)"
    using l o by (rule getBuilderInstance_own)
  from assms(2) have "apply_step ?h1 (length h) st = (r, h')"
    by (simp add: apply_step_via_instance [OF g g1])
  from apply_step_own_frame [OF l o this]
  have f: "length h' = length ?h1" "\<forall>a. a \<noteq> length h \<longrightarrow> h' ! a = ?h1 ! a"
     "proto (h' ! length h) = proto (?h1 ! length h)" "\<exists>s'. own_schemas (h' ! length h) = Some s'"
     "\<forall>b. r = Inr b \<longrightarrow> b = length h"
    by blast+
  from f(2) have "\<forall>a<length h. h' ! a = h ! a" by (simp add: nth_append)
  with f show ?thesis by simp
qed

lemma chain_own_frame:
  "this < length h \<Longrightarrow> own_schemas (h ! this) = Some s \<Longrightarrow> chain h this sts = (r, h') \<Longrightarrow>
     length h' = length h \<and> (\<forall>a. a \<noteq> this \<longrightarrow> h' ! a = h ! a)
     \<and> proto (h' ! this) = proto (h ! this) \<and> (\<exists>s'. own_schemas (h' ! this) = Some s')
     \<and> (\<forall>b. r = Inr b \<longrightarrow> b = this)"
proof (induction sts arbitrary: h s)
  case Nil
  then show ?case by auto
next
  case (Cons st sts)
  obtain r1 h1 where st: "apply_step h this st = (r1, h1)" by (cases "apply_step h this st")
  note f1 = apply_step_own_frame [OF Cons.prems(1,2) st]
  show ?case
  proof (cases r1)
    case (Inl e)
    with Cons.prems(3) st have "r = Inl e \<and> h' = h1" by simp
    with f1 show ?thesis by simp
  next
    case (Inr b)
    with f1 have b: "b = this" by simp
    with Inr Cons.prems(3) st have c: "chain h1 this sts = (r, h')" by simp
    from f1 Cons.prems(1) obtain s1 where o1: "this < length h1" "own_schemas (h1 ! this) = Some s1"
      by auto
    from Cons.IH [OF o1 c] f1 show ?thesis by auto
  qed
qed

lemma chain_none_frame:
  assumes "schemas_owner h (length h) this = None" and "chain h this (st # sts) = (r, h')"
  shows "length h' = Suc (length h) \<and> (\<forall>a<length h. h' ! a = h ! a)
       \<and> proto (h' ! length h) = Some this \<and> (\<exists>s'. own_schemas (h' ! length h) = Some s')
       \<and> (\<forall>b. r = Inr b \<longrightarrow> b = length h)"
proof -
  obtain r1 h1 where st: "apply_step h this st = (r1, h1)" by (cases "apply_step h this st")
  note f1 = apply_step_none_frame [OF assms(1) st]
  show ?thesis
  proof (cases r1)
    case (Inl e)
    with assms(2) st have "r = Inl e \<and> h' = h1" by simp
    with f1 show ?thesis by simp
  next
    case (Inr b)
    with f1 have b: "b = length h" by simp
    with Inr assms(2) st have c: "chain h1 (length h) sts = (r, h')" by simp
    from f1 obtain s1 where o1: "length h < length h1" "own_schemas (h1 ! length h) = Some s1"
      by auto
    from chain_own_frame [OF o1 c] f1 show ?thesis by auto
  qed
qed

lemma materialize_own:
  assumes "this < length h" and "own_schemas (h ! this) = Some s"
  shows "materialize async h this (Function fn) = (Inr (getExecFn fn this async), h)"
  using assms by (simp add: materialize_def getBuilderInstance_own)

lemma materialize_none:
  assumes "schemas_owner h (length h) this = None"
  shows "materialize async h this (Function fn) =
     (Inr (getExecFn fn (length h) async),
      h @ [\<lparr>proto = Some this,
             own_schemas = Some \<lparr>schemas_args = [], schemas_return = CUndefined\<rparr>\<rparr>])"
  using assms by (simp add: materialize_def getBuilderInstance_none)

lemma materialize_has_schemas:
  assumes "materialize async h this fn = (Inr f, h1)"
  shows "read_schemas h1 (builder f) \<noteq> None"
proof (cases "schemas_owner h (length h) this")
  case None
  with assms show ?thesis
    by (cases fn) (auto simp: materialize_def getBuilderInstance_none getExecFn_def read_schemas_own)
next
  case (Some ow)
  have "\<And>n a. schemas_owner h n a = Some ow \<Longrightarrow> ow < length h \<and> own_schemas (h ! ow) \<noteq> None"
  proof -
    fix n a show "schemas_owner h n a = Some ow \<Longrightarrow> ow < length h \<and> own_schemas (h ! ow) \<noteq> None"
      by (induction n arbitrary: a) (auto split: if_splits option.splits)
  qed
  with Some have "own_schemas (h ! ow) \<noteq> None" by blast
  with Some assms show ?thesis
    by (cases fn) (auto simp: materialize_def getBuilderInstance_def getExecFn_def read_schemas_def)
qed

lemma check_argSchemas_None:
  "check_argSchemas vs i = None \<longleftrightarrow> (\<forall>v \<in> set vs. has_parseAsync v)"
  by (induction vs arbitrary: i) auto

lemma check_argSchemas_first:
  "k < length vs \<Longrightarrow> \<not> has_parseAsync (vs ! k) \<Longrightarrow> (\<forall>j<k. has_parseAsync (vs ! j)) \<Longrightarrow>
     check_argSchemas vs i =
       Some (ZodFnError (show_nat (i + k + 1) @ getOrdinalSuffix (i + k + 1)
                           @ '' argument must be a valid Zod schema''))"
proof (induction vs arbitrary: i k)
  case Nil
  then show ?case by simp
next
  case (Cons v vs)
  show ?case
  proof (cases k)
    case 0
    with Cons.prems show ?thesis by simp
  next
    case (Suc k')
    with Cons.prems have "has_parseAsync v" by auto
    moreover from Suc Cons.prems have "k' < length vs" "\<not> has_parseAsync (vs ! k')"
        "\<forall>j<k'. has_parseAsync (vs ! j)" by auto
    ultimately show ?thesis using Cons.IH [of k' "i + 1"] Suc by simp
  qed
qed

lemma fst_args:
  "fst (args h this vs) =
     (if length vs = 0 then Inl (ZodFnError ''Argument schemas not provided'')
      else case check_argSchemas vs 0 of
             Some e \<Rightarrow> Inl e
           | None \<Rightarrow> Inr (fst (getBuilderInstance h this)))"
  by (simp add: args_def split: prod.splits option.splits)

lemma fst_returns:
  "fst (returns h this v) =
     (case v of
        CUndefined \<Rightarrow> Inl (ZodFnError ''Return schema not provided'')
      | _ \<Rightarrow> if has_parseAsync v then Inr (fst (getBuilderInstance h this))
             else Inl (ZodFnError ''Return value must be a valid Zod schema''))"
  by (simp add: returns_def split: prod.splits cand.splits)

text \<open>
  C7. A value passes the schema test of \<^verbatim>\<open>args\<close> and \<^verbatim>\<open>returns\<close> exactly when it is an
  object with a callable \<^verbatim>\<open>parseAsync\<close>; its \<^verbatim>\<open>parse\<close> member plays no part, so an object
  with \<^verbatim>\<open>parseAsync\<close> and no \<^verbatim>\<open>parse\<close> passes. \<^verbatim>\<open>returns(v)\<close> returns a builder exactly
  when \<open>v\<close> passes, and otherwise throws \<^verbatim>\<open>Return schema not provided\<close> (for
  \<^verbatim>\<open>undefined\<close>) or \<^verbatim>\<open>Return value must be a valid Zod schema\<close>. \<^verbatim>\<open>args\<close> with at least
  one value returns a builder exactly when every value passes, and otherwise throws the
  error naming the 1-based position of the first value that does not pass.
\<close>

theorem schema_acceptance:
  "(has_parseAsync v \<longleftrightarrow> (\<exists>s f. v = CObj s \<and> parseAsync s = Some f))
   \<and> has_parseAsync (CObj (s\<lparr>parse := p\<rparr>)) = has_parseAsync (CObj s)
   \<and> has_parseAsync (CObj \<lparr>parse = None, parseAsync = Some f\<rparr>)
   \<and> ((\<exists>b. fst (returns h this v) = Inr b) \<longleftrightarrow> has_parseAsync v)
   \<and> (\<not> has_parseAsync v \<longrightarrow>
         fst (returns h this v) =
           Inl (ZodFnError (case v of CUndefined \<Rightarrow> ''Return schema not provided''
                            | _ \<Rightarrow> ''Return value must be a valid Zod schema'')))
   \<and> (vs \<noteq> [] \<longrightarrow>
         ((\<exists>b. fst (args h this vs) = Inr b) \<longleftrightarrow> (\<forall>v \<in> set vs. has_parseAsync v)))
   \<and> (\<forall>i. i < length vs \<and> \<not> has_parseAsync (vs ! i) \<and> (\<forall>j<i. has_parseAsync (vs ! j)) \<longrightarrow>
         fst (args h this vs) =
           Inl (ZodFnError (show_nat (i + 1) @ getOrdinalSuffix (i + 1)
                              @ '' argument must be a valid Zod schema'')))"
proof -
  have 1: "has_parseAsync v \<longleftrightarrow> (\<exists>s f. v = CObj s \<and> parseAsync s = Some f)"
    by (cases v) (auto split: option.splits)
  have 2: "has_parseAsync (CObj (s\<lparr>parse := p\<rparr>)) = has_parseAsync (CObj s)" by simp
  have 3: "has_parseAsync (CObj \<lparr>parse = None, parseAsync = Some f\<rparr>)" by simp
  have 4: "(\<exists>b. fst (returns h this v) = Inr b) \<longleftrightarrow> has_parseAsync v"
    by (cases v) (auto simp: fst_returns)
  have 5: "\<not> has_parseAsync v \<longrightarrow>
         fst (returns h this v) =
           Inl (ZodFnError (case v of CUndefined \<Rightarrow> ''Return schema not provided''
                            | _ \<Rightarrow> ''Return value must be a valid Zod schema''))"
    by (cases v) (auto simp: fst_returns)
  have 6: "vs \<noteq> [] \<longrightarrow>
         ((\<exists>b. fst (args h this vs) = Inr b) \<longleftrightarrow> (\<forall>v \<in> set vs. has_parseAsync v))"
    using check_argSchemas_None [of vs 0]
    by (auto simp: fst_args split: option.splits)
  have 7: "\<forall>i. i < length vs \<and> \<not> has_parseAsync (vs ! i) \<and> (\<forall>j<i. has_parseAsync (vs ! j)) \<longrightarrow>
         fst (args h this vs) =
           Inl (ZodFnError (show_nat (i + 1) @ getOrdinalSuffix (i + 1)
                              @ '' argument must be a valid Zod schema''))"
  proof (intro allI impI)
    fix i assume a: "i < length vs \<and> \<not> has_parseAsync (vs ! i) \<and> (\<forall>j<i. has_parseAsync (vs ! j))"
    then have "check_argSchemas vs 0 =
       Some (ZodFnError (show_nat (0 + i + 1) @ getOrdinalSuffix (0 + i + 1)
                           @ '' argument must be a valid Zod schema''))"
      by (intro check_argSchemas_first) auto
    moreover from a have "length vs \<noteq> 0" by auto
    ultimately show "fst (args h this vs) =
           Inl (ZodFnError (show_nat (i + 1) @ getOrdinalSuffix (i + 1)
                              @ '' argument must be a valid Zod schema''))"
      by (simp add: fst_args)
  qed
  from 1 2 3 4 5 6 7 show ?thesis by blast
qed


lemma two_chains_disjoint:
  assumes z: "z < length h" "proto (h ! z) = None" "own_schemas (h ! z) = None"
    and ne: "c1 \<noteq> []" "c2 \<noteq> []" and ch1: "chain h z c1 = (Inr b1, h1)"
    and ch2: "chain h1 z c2 = (Inr b2, h2)"
  shows "b1 \<noteq> b2 \<and> h2 ! z = h ! z \<and> read_schemas h2 b1 = read_schemas h1 b1
            \<and> (\<forall>sts r h3. chain h2 b2 sts = (r, h3) \<longrightarrow>
                  read_schemas h3 b1 = read_schemas h2 b1 \<and> h3 ! z = h ! z)
            \<and> (\<forall>sts r h3. chain h2 b1 sts = (r, h3) \<longrightarrow>
                  read_schemas h3 b2 = read_schemas h2 b2 \<and> h3 ! z = h ! z)"
proof -
  have root: "schemas_owner h (length h) z = None"
    by (simp add: schemas_owner_root z)
  obtain st1 sts1 where c1: "c1 = st1 # sts1" using ne(1) by (cases c1) auto
  obtain st2 sts2 where c2: "c2 = st2 # sts2" using ne(2) by (cases c2) auto
  note n1 = chain_none_frame [OF root ch1 [unfolded c1]]
  from n1 have f1: "length h1 = Suc (length h)" "\<forall>a<length h. h1 ! a = h ! a" "b1 = length h"
    by simp_all
  from n1 obtain s1 where o1: "own_schemas (h1 ! length h) = Some s1" by auto
  from f1 z have z1: "z < length h1" "proto (h1 ! z) = None" "own_schemas (h1 ! z) = None"
    by auto
  have root1: "schemas_owner h1 (length h1) z = None"
    by (simp add: schemas_owner_root z1)
  note n2 = chain_none_frame [OF root1 ch2 [unfolded c2]]
  from n2 have f2: "length h2 = Suc (length h1)" "\<forall>a<length h1. h2 ! a = h1 ! a" "b2 = length h1"
    by simp_all
  from n2 obtain s2 where "own_schemas (h2 ! length h1) = Some s2" by auto
  with f2 have o2: "own_schemas (h2 ! b2) = Some s2" "b2 < length h2" by simp_all
  from f1 f2 o1 have o1': "own_schemas (h2 ! b1) = Some s1" "b1 < length h2" "b1 < length h1"
    by simp_all
  have ne12: "b1 \<noteq> b2" using f1 f2 by simp
  have z2: "h2 ! z = h ! z" using f1 f2 z(1) by simp
  have r1: "read_schemas h2 b1 = read_schemas h1 b1"
    using o1 o1' f1 by (simp add: read_schemas_own)
  have on2: "read_schemas h3 b1 = read_schemas h2 b1 \<and> h3 ! z = h ! z"
    if c: "chain h2 b2 sts = (r, h3)" for sts r h3
  proof -
    note n3 = chain_own_frame [OF o2(2) o2(1) c]
    from n3 have f3: "length h3 = length h2" "\<forall>a. a \<noteq> b2 \<longrightarrow> h3 ! a = h2 ! a" by simp_all
    from f3 ne12 o1' have "own_schemas (h3 ! b1) = Some s1" "b1 < length h3" by simp_all
    then have "read_schemas h3 b1 = read_schemas h2 b1"
      using o1' by (simp add: read_schemas_own)
    moreover have "z \<noteq> b2" using f2 z1 by simp
    ultimately show ?thesis using f3 z2 by simp
  qed
  have on1: "read_schemas h3 b2 = read_schemas h2 b2 \<and> h3 ! z = h ! z"
    if c: "chain h2 b1 sts = (r, h3)" for sts r h3
  proof -
    note n3 = chain_own_frame [OF o1'(2) o1'(1) c]
    from n3 have f3: "length h3 = length h2" "\<forall>a. a \<noteq> b1 \<longrightarrow> h3 ! a = h2 ! a" by simp_all
    from f3 ne12 o2 have "own_schemas (h3 ! b2) = Some s2" "b2 < length h3" by simp_all
    then have "read_schemas h3 b2 = read_schemas h2 b2"
      using o2 by (simp add: read_schemas_own)
    moreover have "z \<noteq> b1" using f1 z(1) by simp
    ultimately show ?thesis using f3 z2 by simp
  qed
  show ?thesis
    using ne12 z2 r1 on2 on1 by (intro conjI allI impI) simp_all
qed

text \<open>
  C9. Let \<open>z\<close> be an object without \<^verbatim>\<open>_schemas\<close> and without a prototype that has one,
  as \<^verbatim>\<open>zfn\<close> is. Every chain of \<^verbatim>\<open>args\<close>, \<^verbatim>\<open>returns\<close> and \<^verbatim>\<open>build\<close> steps that starts from
  \<open>z\<close>, and every \<^verbatim>\<open>create\<close> or \<^verbatim>\<open>createAsync\<close> on \<open>z\<close>, allocates one new object with
  prototype \<open>z\<close> that owns the schema record, returns it (or binds the callable to
  it), and leaves \<open>z\<close> and every object that existed unchanged. Two chains started
  from \<open>z\<close> one after the other end in different objects, \<open>z\<close> is still unchanged,
  and whatever further steps are run on the one leave the configuration of the other
  as it was.
\<close>

theorem zfn_never_mutated:
  assumes "z < length h" and "proto (h ! z) = None" and "own_schemas (h ! z) = None"
  shows "(\<forall>st sts r h'. chain h z (st # sts) = (r, h') \<longrightarrow>
            length h' = Suc (length h) \<and> (\<forall>a<length h. h' ! a = h ! a)
            \<and> proto (h' ! length h) = Some z \<and> (\<exists>s'. own_schemas (h' ! length h) = Some s')
            \<and> (\<forall>b. r = Inr b \<longrightarrow> b = length h))
       \<and> (\<forall>async fn f h'. materialize async h z (Function fn) = (Inr f, h') \<longrightarrow>
            builder f = length h \<and> length h' = Suc (length h) \<and> (\<forall>a<length h. h' ! a = h ! a)
            \<and> h' ! length h =
                \<lparr>proto = Some z,
                 own_schemas = Some \<lparr>schemas_args = [], schemas_return = CUndefined\<rparr>\<rparr>)
       \<and> (\<forall>c1 c2 b1 h1 b2 h2.
            c1 \<noteq> [] \<and> c2 \<noteq> [] \<and> chain h z c1 = (Inr b1, h1) \<and> chain h1 z c2 = (Inr b2, h2) \<longrightarrow>
            b1 \<noteq> b2 \<and> h2 ! z = h ! z \<and> read_schemas h2 b1 = read_schemas h1 b1
            \<and> (\<forall>sts r h3. chain h2 b2 sts = (r, h3) \<longrightarrow>
                  read_schemas h3 b1 = read_schemas h2 b1 \<and> h3 ! z = h ! z)
            \<and> (\<forall>sts r h3. chain h2 b1 sts = (r, h3) \<longrightarrow>
                  read_schemas h3 b2 = read_schemas h2 b2 \<and> h3 ! z = h ! z))"
proof (intro conjI)
  have root: "schemas_owner h (length h) z = None"
    by (simp add: schemas_owner_root assms)
  show "\<forall>st sts r h'. chain h z (st # sts) = (r, h') \<longrightarrow>
            length h' = Suc (length h) \<and> (\<forall>a<length h. h' ! a = h ! a)
            \<and> proto (h' ! length h) = Some z \<and> (\<exists>s'. own_schemas (h' ! length h) = Some s')
            \<and> (\<forall>b. r = Inr b \<longrightarrow> b = length h)"
  proof (intro allI impI)
    fix st sts r h' assume "chain h z (st # sts) = (r, h')"
    from chain_none_frame [OF root this]
    show "length h' = Suc (length h) \<and> (\<forall>a<length h. h' ! a = h ! a)
            \<and> proto (h' ! length h) = Some z \<and> (\<exists>s'. own_schemas (h' ! length h) = Some s')
            \<and> (\<forall>b. r = Inr b \<longrightarrow> b = length h)" .
  qed
  show "\<forall>async fn f h'. materialize async h z (Function fn) = (Inr f, h') \<longrightarrow>
            builder f = length h \<and> length h' = Suc (length h) \<and> (\<forall>a<length h. h' ! a = h ! a)
            \<and> h' ! length h =
                \<lparr>proto = Some z,
                 own_schemas = Some \<lparr>schemas_args = [], schemas_return = CUndefined\<rparr>\<rparr>"
    by (auto simp: materialize_none [OF root] getExecFn_def nth_append)
  show "\<forall>c1 c2 b1 h1 b2 h2.
            c1 \<noteq> [] \<and> c2 \<noteq> [] \<and> chain h z c1 = (Inr b1, h1) \<and> chain h1 z c2 = (Inr b2, h2) \<longrightarrow>
            b1 \<noteq> b2 \<and> h2 ! z = h ! z \<and> read_schemas h2 b1 = read_schemas h1 b1
            \<and> (\<forall>sts r h3. chain h2 b2 sts = (r, h3) \<longrightarrow>
                  read_schemas h3 b1 = read_schemas h2 b1 \<and> h3 ! z = h ! z)
            \<and> (\<forall>sts r h3. chain h2 b1 sts = (r, h3) \<longrightarrow>
                  read_schemas h3 b2 = read_schemas h2 b2 \<and> h3 ! z = h ! z)"
  proof (intro allI impI, elim conjE)
    fix c1 c2 b1 h1 b2 h2
    assume "c1 \<noteq> []" "c2 \<noteq> []" "chain h z c1 = (Inr b1, h1)" "chain h1 z c2 = (Inr b2, h2)"
    from two_chains_disjoint [OF assms this]
    show "b1 \<noteq> b2 \<and> h2 ! z = h ! z \<and> read_schemas h2 b1 = read_schemas h1 b1
            \<and> (\<forall>sts r h3. chain h2 b2 sts = (r, h3) \<longrightarrow>
                  read_schemas h3 b1 = read_schemas h2 b1 \<and> h3 ! z = h ! z)
            \<and> (\<forall>sts r h3. chain h2 b1 sts = (r, h3) \<longrightarrow>
                  read_schemas h3 b2 = read_schemas h2 b2 \<and> h3 ! z = h ! z)" .
  qed
qed

lemma apply_step_own_effect:
  assumes "b < length h" and "own_schemas (h ! b) = Some s" and "apply_step h b st = (r, h')"
  shows "(\<forall>vs. st = StepArgs vs \<and> r = Inr b \<longrightarrow>
            read_schemas h' b = Some (s\<lparr>schemas_args := vs\<rparr>))
       \<and> (\<forall>v. st = StepReturns v \<and> r = Inr b \<longrightarrow>
            read_schemas h' b = Some (s\<lparr>schemas_return := v\<rparr>))"
proof (intro conjI allI impI; elim conjE)
  fix vs assume st: "st = StepArgs vs" and r: "r = Inr b"
  from assms(3) st r have "args h b vs = (Inr b, h')" by simp
  then have "h' = h[b := (h ! b)\<lparr>own_schemas := Some (s\<lparr>schemas_args := vs\<rparr>)\<rparr>]"
    by (auto simp: args_own [OF assms(1,2)] split: if_splits option.splits)
  then show "read_schemas h' b = Some (s\<lparr>schemas_args := vs\<rparr>)"
    using assms(1) by (simp add: read_schemas_own)
next
  fix v assume st: "st = StepReturns v" and r: "r = Inr b"
  from assms(3) st r have "returns h b v = (Inr b, h')" by simp
  then have "h' = h[b := (h ! b)\<lparr>own_schemas := Some (s\<lparr>schemas_return := v\<rparr>)\<rparr>]"
    by (auto simp: returns_own [OF assms(1,2)] split: if_splits cand.splits)
  then show "read_schemas h' b = Some (s\<lparr>schemas_return := v\<rparr>)"
    using assms(1) by (simp add: read_schemas_own)
qed

lemma apply_step_other_builder:
  assumes "b < length h" and "own_schemas (h ! b) = Some s" and "b2 \<noteq> b"
    and "schemas_owner h (length h) b2 = None \<or> (b2 < length h \<and> own_schemas (h ! b2) \<noteq> None)"
    and "apply_step h b2 st = (r, h')"
  shows "read_schemas h' b = read_schemas h b"
proof -
  have "b < length h' \<and> h' ! b = h ! b"
    using assms(4)
  proof
    assume "schemas_owner h (length h) b2 = None"
    from apply_step_none_frame [OF this assms(5)] assms(1) show ?thesis by simp
  next
    assume "b2 < length h \<and> own_schemas (h ! b2) \<noteq> None"
    then obtain s2 where "b2 < length h" "own_schemas (h ! b2) = Some s2" by auto
    from apply_step_own_frame [OF this assms(5)] assms(1,3) show ?thesis by simp
  qed
  with assms(1,2) show ?thesis by (simp add: read_schemas_own)
qed

text \<open>
  What a configuration step does to the store. On a receiver that has no schema state
  it yields a new builder and leaves every existing object unchanged. On a receiver that
  owns a schema record it returns the receiver itself, changes no other object, and a
  successful \<^verbatim>\<open>args\<close> or \<^verbatim>\<open>returns\<close> overwrites the receiver's argument list or return
  slot in place.
\<close>

lemma config_step_in_place:
  assumes "apply_step h this st = (r, h')"
  shows "(schemas_owner h (length h) this = None \<longrightarrow>
            length h' = Suc (length h) \<and> (\<forall>a<length h. h' ! a = h ! a)
            \<and> (\<forall>b. r = Inr b \<longrightarrow> b = length h))
       \<and> (\<forall>s. this < length h \<and> own_schemas (h ! this) = Some s \<longrightarrow>
            length h' = length h \<and> (\<forall>a. a \<noteq> this \<longrightarrow> h' ! a = h ! a)
            \<and> (\<forall>b. r = Inr b \<longrightarrow> b = this)
            \<and> (\<forall>vs. st = StepArgs vs \<and> r = Inr this \<longrightarrow>
                  read_schemas h' this = Some (s\<lparr>schemas_args := vs\<rparr>))
            \<and> (\<forall>v. st = StepReturns v \<and> r = Inr this \<longrightarrow>
                  read_schemas h' this = Some (s\<lparr>schemas_return := v\<rparr>)))"
proof -
  have 1: "schemas_owner h (length h) this = None \<longrightarrow>
            length h' = Suc (length h) \<and> (\<forall>a<length h. h' ! a = h ! a)
            \<and> (\<forall>b. r = Inr b \<longrightarrow> b = length h)"
  proof
    assume "schemas_owner h (length h) this = None"
    from apply_step_none_frame [OF this assms]
    show "length h' = Suc (length h) \<and> (\<forall>a<length h. h' ! a = h ! a)
            \<and> (\<forall>b. r = Inr b \<longrightarrow> b = length h)"
      by (elim conjE) (intro conjI; assumption)
  qed
  have 2: "\<forall>s. this < length h \<and> own_schemas (h ! this) = Some s \<longrightarrow>
            length h' = length h \<and> (\<forall>a. a \<noteq> this \<longrightarrow> h' ! a = h ! a)
            \<and> (\<forall>b. r = Inr b \<longrightarrow> b = this)
            \<and> (\<forall>vs. st = StepArgs vs \<and> r = Inr this \<longrightarrow>
                  read_schemas h' this = Some (s\<lparr>schemas_args := vs\<rparr>))
            \<and> (\<forall>v. st = StepReturns v \<and> r = Inr this \<longrightarrow>
                  read_schemas h' this = Some (s\<lparr>schemas_return := v\<rparr>))"
  proof (rule allI, rule impI)
    fix s assume "this < length h \<and> own_schemas (h ! this) = Some s"
    then have o: "this < length h" "own_schemas (h ! this) = Some s" by simp_all
    from apply_step_own_frame [OF o assms] apply_step_own_effect [OF o assms]
    show "length h' = length h \<and> (\<forall>a. a \<noteq> this \<longrightarrow> h' ! a = h ! a)
            \<and> (\<forall>b. r = Inr b \<longrightarrow> b = this)
            \<and> (\<forall>vs. st = StepArgs vs \<and> r = Inr this \<longrightarrow>
                  read_schemas h' this = Some (s\<lparr>schemas_args := vs\<rparr>))
            \<and> (\<forall>v. st = StepReturns v \<and> r = Inr this \<longrightarrow>
                  read_schemas h' this = Some (s\<lparr>schemas_return := v\<rparr>))"
      by (elim conjE) (intro conjI; assumption)
  qed
  from 1 2 show ?thesis by (rule conjI)
qed

text \<open>
  What a callable reads. A callable made by \<^verbatim>\<open>create\<close> or \<^verbatim>\<open>createAsync\<close> on \<open>b\<close> keeps a
  reference to a builder object: a fresh object when \<open>b\<close> has no schema state, \<open>b\<close>
  itself when \<open>b\<close> owns a record. A call validates with the record found in the store
  at the call, so a later successful \<^verbatim>\<open>args\<close> or \<^verbatim>\<open>returns\<close> on that object replaces the
  schemas the callable validates with, and a step on any other builder object leaves
  them as they were.
\<close>

lemma callable_reads_builder_at_call:
  assumes "materialize async h this (Function fn) = (Inr f, h1)"
  shows "(schemas_owner h (length h) this = None \<longrightarrow>
            builder f = length h
            \<and> read_schemas h1 (builder f) = Some \<lparr>schemas_args = [], schemas_return = CUndefined\<rparr>)
       \<and> (\<forall>s. this < length h \<and> own_schemas (h ! this) = Some s \<longrightarrow> builder f = this \<and> h1 = h)
       \<and> (\<forall>h2 s. read_schemas h2 (builder f) = Some s \<longrightarrow>
            invoke jp h2 f call_args =
              (case run async jp s (opts f) call_args of
                 (c, bo', tr) \<Rightarrow> (c, f\<lparr>opts := bo'\<rparr>, tr)))
       \<and> (\<forall>h2 s st r h3.
            builder f < length h2 \<and> own_schemas (h2 ! builder f) = Some s
            \<and> apply_step h2 (builder f) st = (r, h3) \<longrightarrow>
              (\<forall>vs. st = StepArgs vs \<and> r = Inr (builder f) \<longrightarrow>
                 read_schemas h3 (builder f) = Some (s\<lparr>schemas_args := vs\<rparr>))
              \<and> (\<forall>v. st = StepReturns v \<and> r = Inr (builder f) \<longrightarrow>
                 read_schemas h3 (builder f) = Some (s\<lparr>schemas_return := v\<rparr>)))
       \<and> (\<forall>h2 b2 st r h3.
            builder f < length h2 \<and> own_schemas (h2 ! builder f) \<noteq> None \<and> b2 \<noteq> builder f
            \<and> (schemas_owner h2 (length h2) b2 = None
                \<or> (b2 < length h2 \<and> own_schemas (h2 ! b2) \<noteq> None))
            \<and> apply_step h2 b2 st = (r, h3) \<longrightarrow>
              read_schemas h3 (builder f) = read_schemas h2 (builder f))"
proof -
  have 1: "schemas_owner h (length h) this = None \<longrightarrow>
            builder f = length h
            \<and> read_schemas h1 (builder f) = Some \<lparr>schemas_args = [], schemas_return = CUndefined\<rparr>"
  proof
    assume n: "schemas_owner h (length h) this = None"
    from assms show "builder f = length h
            \<and> read_schemas h1 (builder f) = Some \<lparr>schemas_args = [], schemas_return = CUndefined\<rparr>"
      by (auto simp: materialize_none [OF n] getExecFn_def read_schemas_own)
  qed
  have 2: "\<forall>s. this < length h \<and> own_schemas (h ! this) = Some s \<longrightarrow> builder f = this \<and> h1 = h"
  proof (rule allI, rule impI)
    fix s assume "this < length h \<and> own_schemas (h ! this) = Some s"
    then have o: "this < length h" "own_schemas (h ! this) = Some s" by simp_all
    from assms show "builder f = this \<and> h1 = h"
      by (auto simp: materialize_own [OF o] getExecFn_def)
  qed
  have 3: "\<forall>h2 s. read_schemas h2 (builder f) = Some s \<longrightarrow>
            invoke jp h2 f call_args =
              (case run async jp s (opts f) call_args of
                 (c, bo', tr) \<Rightarrow> (c, f\<lparr>opts := bo'\<rparr>, tr))"
  proof (intro allI impI)
    fix h2 s assume r: "read_schemas h2 (builder f) = Some s"
    from assms have "isAsync f = async"
      by (auto simp: materialize_def getExecFn_def split: prod.splits)
    with r show "invoke jp h2 f call_args =
              (case run async jp s (opts f) call_args of
                 (c, bo', tr) \<Rightarrow> (c, f\<lparr>opts := bo'\<rparr>, tr))"
      by (simp add: invoke_def)
  qed
  have 4: "\<forall>h2 s st r h3.
            builder f < length h2 \<and> own_schemas (h2 ! builder f) = Some s
            \<and> apply_step h2 (builder f) st = (r, h3) \<longrightarrow>
              (\<forall>vs. st = StepArgs vs \<and> r = Inr (builder f) \<longrightarrow>
                 read_schemas h3 (builder f) = Some (s\<lparr>schemas_args := vs\<rparr>))
              \<and> (\<forall>v. st = StepReturns v \<and> r = Inr (builder f) \<longrightarrow>
                 read_schemas h3 (builder f) = Some (s\<lparr>schemas_return := v\<rparr>))"
  proof (rule allI, rule allI, rule allI, rule allI, rule allI, rule impI)
    fix h2 s st r h3
    assume "builder f < length h2 \<and> own_schemas (h2 ! builder f) = Some s
            \<and> apply_step h2 (builder f) st = (r, h3)"
    then have o: "builder f < length h2" "own_schemas (h2 ! builder f) = Some s"
        "apply_step h2 (builder f) st = (r, h3)" by simp_all
    from apply_step_own_effect [OF o]
    show "(\<forall>vs. st = StepArgs vs \<and> r = Inr (builder f) \<longrightarrow>
                 read_schemas h3 (builder f) = Some (s\<lparr>schemas_args := vs\<rparr>))
              \<and> (\<forall>v. st = StepReturns v \<and> r = Inr (builder f) \<longrightarrow>
                 read_schemas h3 (builder f) = Some (s\<lparr>schemas_return := v\<rparr>))" .
  qed
  have 5: "\<forall>h2 b2 st r h3.
            builder f < length h2 \<and> own_schemas (h2 ! builder f) \<noteq> None \<and> b2 \<noteq> builder f
            \<and> (schemas_owner h2 (length h2) b2 = None
                \<or> (b2 < length h2 \<and> own_schemas (h2 ! b2) \<noteq> None))
            \<and> apply_step h2 b2 st = (r, h3) \<longrightarrow>
              read_schemas h3 (builder f) = read_schemas h2 (builder f)"
  proof (intro allI impI)
    fix h2 b2 st r h3
    assume a: "builder f < length h2 \<and> own_schemas (h2 ! builder f) \<noteq> None \<and> b2 \<noteq> builder f
            \<and> (schemas_owner h2 (length h2) b2 = None
                \<or> (b2 < length h2 \<and> own_schemas (h2 ! b2) \<noteq> None))
            \<and> apply_step h2 b2 st = (r, h3)"
    then obtain s where o: "builder f < length h2" "own_schemas (h2 ! builder f) = Some s" by auto
    from a have rest: "b2 \<noteq> builder f"
        "schemas_owner h2 (length h2) b2 = None \<or> (b2 < length h2 \<and> own_schemas (h2 ! b2) \<noteq> None)"
        "apply_step h2 b2 st = (r, h3)" by simp_all
    from apply_step_other_builder [OF o rest]
    show "read_schemas h3 (builder f) = read_schemas h2 (builder f)" .
  qed
  show ?thesis by (intro conjI) (rule 1, rule 2, rule 3, rule 4, rule 5)
qed

lemmas heap_defs = zfn_def zfn_heap_def ex_heap1_def ex_heap2_def ex_heap3_def
  args_def returns_def getBuilderInstance_def update_schemas_def read_schemas_def
  materialize_def create_def createAsync_def

lemma numeral_fuel: "schemas_owner h (numeral k) a = schemas_owner h (Suc (pred_numeral k)) a"
  by (simp add: numeral_eq_Suc)

text \<open>
  C5. The declarations of \<^verbatim>\<open>args\<close>, \<^verbatim>\<open>returns\<close> and \<^verbatim>\<open>build\<close> promise a new builder
  instance from every step. The code at \<^verbatim>\<open>b = zfn.args(accept)\<close>,
  \<^verbatim>\<open>b2 = b.returns(reject)\<close>: the first step allocates the object at address 1, the
  second returns that same object, and the return slot read through \<open>b\<close> changes from
  \<^verbatim>\<open>undefined\<close> to the new schema.
\<close>

theorem returns_mutates_configured_builder:
  "args zfn_heap zfn [CObj ex_accept] = (Inr 1, ex_heap1)
   \<and> returns ex_heap1 1 (CObj ex_reject) = (Inr 1, ex_heap2)
   \<and> map_option schemas_return (read_schemas ex_heap1 1) = Some CUndefined
   \<and> map_option schemas_return (read_schemas ex_heap2 1) = Some (CObj ex_reject)
   \<and> read_schemas ex_heap2 1 \<noteq> read_schemas ex_heap1 1"
  by (simp add: heap_defs numeral_fuel ex_accept_def ex_reject_def)

text \<open>
  C4. The code at \<^verbatim>\<open>b = zfn.args(accept)\<close>, \<^verbatim>\<open>f = b.create(fn)\<close>: the call \<^verbatim>\<open>f(5)\<close>
  returns; after \<^verbatim>\<open>b.args(reject)\<close>, which updates the record of \<open>b\<close> in place, the same
  call of the same \<open>f\<close> throws the validation error of the first argument.
\<close>

theorem args_after_create_changes_callable:
  "args zfn_heap zfn [CObj ex_accept] = (Inr 1, ex_heap1)
   \<and> create ex_heap1 1 (Function ex_fn) = (Inr ex_callable, ex_heap1)
   \<and> fst (invoke ex_jp ex_heap1 ex_callable [VNum 5]) = Return (VArr [VNum 5])
   \<and> args ex_heap1 1 [CObj ex_reject] = (Inr 1, ex_heap3)
   \<and> fst (invoke ex_jp ex_heap3 ex_callable [VNum 5]) =
       Throw (argValidation_throwError ex_jp 1 ''ISSUES'')
   \<and> fst (invoke ex_jp ex_heap3 ex_callable [VNum 5]) \<noteq>
       fst (invoke ex_jp ex_heap1 ex_callable [VNum 5])"
  by (simp add: heap_defs numeral_fuel ex_accept_def ex_reject_def ex_callable_def getExecFn_def
      invoke_def run_def create_call_def create_finish_def argValidation_def returnValidation_def
      ex_fn_def no_op_spy_def Let_def)


lemma zfn_root:
  "zfn < length zfn_heap" "proto (zfn_heap ! zfn) = None" "own_schemas (zfn_heap ! zfn) = None"
  by (simp_all add: zfn_heap_def zfn_def)

theorem schema_acceptance_witness:
  "has_parseAsync (CObj ex_async_only) \<and> parse ex_async_only = None
   \<and> (\<exists>b. fst (returns zfn_heap zfn (CObj ex_async_only)) = Inr b)
   \<and> (\<exists>b. fst (args zfn_heap zfn [CObj ex_async_only]) = Inr b)
   \<and> \<not> has_parseAsync CNull
   \<and> fst (returns zfn_heap zfn CNull) =
       Inl (ZodFnError ''Return value must be a valid Zod schema'')
   \<and> fst (args zfn_heap zfn [CObj ex_accept, CNull, CUndefined]) =
       Inl (ZodFnError ''2nd argument must be a valid Zod schema'')"
proof -
  let ?vs = "[CObj ex_accept, CNull, CUndefined]"
  note A = schema_acceptance [where v = "CObj ex_async_only" and h = zfn_heap and this = zfn
      and vs = "[CObj ex_async_only]"]
  note B = schema_acceptance [where v = CNull and h = zfn_heap and this = zfn and vs = ?vs]
  have h: "has_parseAsync (CObj ex_async_only)" by (simp add: ex_async_only_def)
  have p: "parse ex_async_only = None" by (simp add: ex_async_only_def)
  have ne: "[CObj ex_async_only] \<noteq> []" by simp
  have al: "\<forall>v \<in> set [CObj ex_async_only]. has_parseAsync v" using h by simp
  have nh: "\<not> has_parseAsync CNull" by simp
  have 1: "\<exists>b. fst (returns zfn_heap zfn (CObj ex_async_only)) = Inr b"
    by (rule A [THEN conjunct2, THEN conjunct2, THEN conjunct2, THEN conjunct1, THEN iffD2, OF h])
  have 2: "\<exists>b. fst (args zfn_heap zfn [CObj ex_async_only]) = Inr b"
    by (rule A [THEN conjunct2, THEN conjunct2, THEN conjunct2, THEN conjunct2, THEN conjunct2,
                THEN conjunct1, THEN mp, OF ne, THEN iffD2, OF al])
  have "fst (returns zfn_heap zfn CNull) =
           Inl (ZodFnError (case CNull of CUndefined \<Rightarrow> ''Return schema not provided''
                            | _ \<Rightarrow> ''Return value must be a valid Zod schema''))"
    by (rule B [THEN conjunct2, THEN conjunct2, THEN conjunct2, THEN conjunct2, THEN conjunct1,
                THEN mp, OF nh])
  then have 3: "fst (returns zfn_heap zfn CNull) =
       Inl (ZodFnError ''Return value must be a valid Zod schema'')"
    by simp
  have pre: "1 < length ?vs \<and> \<not> has_parseAsync (?vs ! 1) \<and> (\<forall>j<1. has_parseAsync (?vs ! j))"
    by (simp add: ex_accept_def)
  have sfx: "show_nat (1 + 1) @ getOrdinalSuffix (1 + 1) @ '' argument must be a valid Zod schema''
      = ''2nd argument must be a valid Zod schema''"
    by code_simp
  have "fst (args zfn_heap zfn ?vs) =
           Inl (ZodFnError (show_nat (1 + 1) @ getOrdinalSuffix (1 + 1)
                              @ '' argument must be a valid Zod schema''))"
    by (rule B [THEN conjunct2, THEN conjunct2, THEN conjunct2, THEN conjunct2, THEN conjunct2,
                THEN conjunct2, THEN spec, THEN mp, OF pre])
  then have 4: "fst (args zfn_heap zfn ?vs) =
       Inl (ZodFnError ''2nd argument must be a valid Zod schema'')"
    unfolding sfx .
  show ?thesis
    by (intro conjI) (rule h, rule p, rule 1, rule 2, rule nh, rule 3, rule 4)
qed

theorem zfn_never_mutated_witness:
  "zfn < length zfn_heap \<and> proto (zfn_heap ! zfn) = None \<and> own_schemas (zfn_heap ! zfn) = None
   \<and> chain zfn_heap zfn [StepArgs [CObj ex_accept]] = (Inr 1, ex_heap1)
   \<and> chain ex_heap1 zfn [StepReturns (CObj ex_reject)] = (Inr 2, ex_heap4)
   \<and> (1::nat) \<noteq> 2 \<and> ex_heap4 ! zfn = zfn_heap ! zfn
   \<and> read_schemas ex_heap4 1 = read_schemas ex_heap1 1
   \<and> length ex_heap1 = Suc (length zfn_heap)
   \<and> ex_heap1 ! zfn = zfn_heap ! zfn"
proof -
  have c1: "chain zfn_heap zfn [StepArgs [CObj ex_accept]] = (Inr 1, ex_heap1)"
    by (simp add: heap_defs numeral_fuel ex_accept_def)
  have c2: "chain ex_heap1 zfn [StepReturns (CObj ex_reject)] = (Inr 2, ex_heap4)"
    by (simp add: heap_defs ex_heap4_def numeral_fuel ex_reject_def)
  note t = zfn_never_mutated [OF zfn_root]
  have pre: "[StepArgs [CObj ex_accept]] \<noteq> [] \<and> [StepReturns (CObj ex_reject)] \<noteq> []
      \<and> chain zfn_heap zfn [StepArgs [CObj ex_accept]] = (Inr 1, ex_heap1)
      \<and> chain ex_heap1 zfn [StepReturns (CObj ex_reject)] = (Inr 2, ex_heap4)"
    using c1 c2 by simp
  note e = t [THEN conjunct2, THEN conjunct2, THEN spec, THEN spec, THEN spec, THEN spec,
              THEN spec, THEN spec, THEN mp, OF pre]
  note a = t [THEN conjunct1, THEN spec, THEN spec, THEN spec, THEN spec, THEN mp, OF c1]
  have 1: "(1::nat) \<noteq> 2" by (rule e [THEN conjunct1])
  have 2: "ex_heap4 ! zfn = zfn_heap ! zfn" by (rule e [THEN conjunct2, THEN conjunct1])
  have 3: "read_schemas ex_heap4 1 = read_schemas ex_heap1 1"
    by (rule e [THEN conjunct2, THEN conjunct2, THEN conjunct1])
  have 4: "length ex_heap1 = Suc (length zfn_heap)" by (rule a [THEN conjunct1])
  have 5: "ex_heap1 ! zfn = zfn_heap ! zfn"
    by (rule a [THEN conjunct2, THEN conjunct1, THEN spec, THEN mp, OF zfn_root(1)])
  show ?thesis
    by (intro conjI) (rule zfn_root(1), rule zfn_root(2), rule zfn_root(3), rule c1, rule c2,
        rule 1, rule 2, rule 3, rule 4, rule 5)
qed

theorem spy_applied_with_counter_witness:
  "read_schemas ex_heap1 (builder ex_called) = Some ex_schemas1
   \<and> map (spy_input (isAsync ex_called) ex_jp ex_schemas1 (opts ex_called)) [[VNum 5], [VNum 6]] =
       map Some [([VNum 5], VArr [VNum 5]), ([VNum 6], VArr [VNum 6])]
   \<and> spy ex_called (Function ex_spy) =
       Inr (ex_called\<lparr>opts := (opts ex_called)\<lparr>spyFnCount := 0, spyFn := ex_spy\<rparr>\<rparr>)
   \<and> invoke_calls ex_jp ex_heap1
         (ex_called\<lparr>opts := (opts ex_called)\<lparr>spyFnCount := 0, spyFn := ex_spy\<rparr>\<rparr>)
         [[VNum 5], [VNum 6]] =
       ([Throw (VArr [VArr [VNum 5], VArr [VNum 5], VNum 1]),
         Throw (VArr [VArr [VNum 6], VArr [VNum 6], VNum 2])],
        ex_called\<lparr>opts := (opts ex_called)\<lparr>spyFnCount := 2, spyFn := ex_spy\<rparr>\<rparr>)
   \<and> invoke_calls ex_jp ex_heap1 (resetSpy ex_called) [[VNum 5], [VNum 6]] =
       ([Return (VArr [VNum 5]), Return (VArr [VNum 6])],
        ex_called\<lparr>opts := (opts ex_called)\<lparr>spyFnCount := 2, spyFn := no_op_spy\<rparr>\<rparr>)
   \<and> spy (resetSpy ex_called) (Function ex_spy) =
       Inr (ex_called\<lparr>opts := (opts ex_called)\<lparr>spyFnCount := 0, spyFn := ex_spy\<rparr>\<rparr>)
   \<and> invoke_calls ex_jp ex_heap1 ex_called [[VNum 5], [VNum 6]] =
       ([Return (VArr [VNum 5]), Return (VArr [VNum 6])],
        ex_called\<lparr>opts := (opts ex_called)\<lparr>spyFnCount := 9\<rparr>\<rparr>)
   \<and> read_schemas ex_heap3 (builder ex_called) = Some ex_schemas_reject_arg
   \<and> spy_input (isAsync ex_called) ex_jp ex_schemas_reject_arg (opts ex_called) [VNum 5] = None
   \<and> fst (snd (invoke ex_jp ex_heap3 ex_called [VNum 5])) = ex_called"
proof -
  let ?calls = "[[VNum 5], [VNum 6]]"
  let ?ds = "[([VNum 5], VArr [VNum 5]), ([VNum 6], VArr [VNum 6])]"
  have sel: "builder ex_called = 1" "isAsync ex_called = False"
    "execFn (opts ex_called) = ex_fn" "onErrorFn (opts ex_called) = rethrow"
    "spyFn (opts ex_called) = no_op_spy" "spyFnCount (opts ex_called) = 7"
    by (simp_all add: ex_called_def ex_callable_def getExecFn_def)
  have rd: "read_schemas ex_heap1 (builder ex_called) = Some ex_schemas1"
    by (simp add: sel heap_defs numeral_fuel ex_schemas1_def)
  have rd3: "read_schemas ex_heap3 (builder ex_called) = Some ex_schemas_reject_arg"
    by (simp add: sel heap_defs numeral_fuel ex_schemas_reject_arg_def)
  have ip: "\<not> in_promise False (opts ex_called) pa" for pa
    by (simp add: in_promise_def sel ex_fn_def)
  have si: "spy_input False ex_jp ex_schemas1 (opts ex_called) [v] = Some ([v], VArr [v])" for v
    by (simp add: spy_input_def recovery_stage_def ip sel ex_schemas1_def ex_defs
        argValidation_def returnValidation_def return_stage_def)
  have m: "map (spy_input (isAsync ex_called) ex_jp ex_schemas1 (opts ex_called)) ?calls =
       map Some ?ds"
    by (simp add: sel si)
  have n: "spy_input (isAsync ex_called) ex_jp ex_schemas_reject_arg (opts ex_called) [VNum 5] =
       None"
    by (simp add: spy_input_def sel ex_defs argValidation_def)
  have en: "enumerate k ?ds = [(k, [VNum 5], VArr [VNum 5]), (Suc k, [VNum 6], VArr [VNum 6])]"
    for k
    by simp
  note t = spy_applied_with_counter [OF rd m, of ex_spy]
  from t have 1: "spy ex_called (Function ex_spy) =
       Inr (ex_called\<lparr>opts := (opts ex_called)\<lparr>spyFnCount := 0, spyFn := ex_spy\<rparr>\<rparr>)"
    by (rule conjunct1)
  from t [THEN conjunct2, THEN conjunct1]
  have 2: "invoke_calls ex_jp ex_heap1
         (ex_called\<lparr>opts := (opts ex_called)\<lparr>spyFnCount := 0, spyFn := ex_spy\<rparr>\<rparr>) ?calls =
       ([Throw (VArr [VArr [VNum 5], VArr [VNum 5], VNum 1]),
         Throw (VArr [VArr [VNum 6], VArr [VNum 6], VNum 2])],
        ex_called\<lparr>opts := (opts ex_called)\<lparr>spyFnCount := 2, spyFn := ex_spy\<rparr>\<rparr>)"
    unfolding en by (simp add: sel ip spy_stage_outcome_def ex_spy_def)
  from t [THEN conjunct2, THEN conjunct2, THEN conjunct2, THEN conjunct1]
  have 3: "invoke_calls ex_jp ex_heap1 (resetSpy ex_called) ?calls =
       ([Return (VArr [VNum 5]), Return (VArr [VNum 6])],
        ex_called\<lparr>opts := (opts ex_called)\<lparr>spyFnCount := 2, spyFn := no_op_spy\<rparr>\<rparr>)"
    unfolding en by (simp add: sel ip spy_stage_outcome_def no_op_spy_def)
  note r = t [THEN conjunct2, THEN conjunct2, THEN conjunct2, THEN conjunct2, THEN conjunct1]
  from t [THEN conjunct2, THEN conjunct2, THEN conjunct2, THEN conjunct2, THEN conjunct2,
      THEN conjunct1]
  have 4: "invoke_calls ex_jp ex_heap1 ex_called ?calls =
       ([Return (VArr [VNum 5]), Return (VArr [VNum 6])],
        ex_called\<lparr>opts := (opts ex_called)\<lparr>spyFnCount := 9\<rparr>\<rparr>)"
    unfolding en by (simp add: sel ip spy_stage_outcome_def no_op_spy_def)
  have m0: "map (spy_input (isAsync ex_called) ex_jp ex_schemas_reject_arg (opts ex_called)) [] =
       map Some []"
    by simp
  note u = spy_applied_with_counter [OF rd3 m0, of ex_spy]
  note u6 = u [THEN conjunct2, THEN conjunct2, THEN conjunct2, THEN conjunct2, THEN conjunct2,
      THEN conjunct2, THEN spec, THEN mp, OF n]
  from u6 have 5: "fst (snd (invoke ex_jp ex_heap3 ex_called [VNum 5])) = ex_called"
    by (rule conjunct1)
  show ?thesis
    by (intro conjI) (rule rd, rule m, rule 1, rule 2, rule 3, rule r, rule 4, rule rd3, rule n,
        rule 5)
qed

end
